theory Spec2Isabelle
  imports Main "HOL-Library.Word" "HOL-Library.Sublist"
begin

unbundle bit_operations_syntax

section \<open>Python values used by streamlit_app.py\<close>

text \<open>
  A Python \<open>str\<close> is a sequence of Unicode code points, a \<open>bytes\<close> object a sequence
  of octets, and a NumPy \<open>float64\<close> an IEEE 754 binary64 bit pattern. Literals of the
  script are written with \<open>ustr\<close>, which maps an ASCII literal to its code points.
\<close>

type_synonym str = "nat list"
type_synonym bytes = "8 word list"
type_synonym float64 = "64 word"

definition ustr :: "string \<Rightarrow> str" where
  "ustr s = map of_char s"

definition newline :: str where
  "newline = [10]"

datatype exn_class =
  ValueError | RuntimeError | HTTPError | NameError | UnicodeEncodeError | OtherError

text \<open>An exception object: its class and \<open>str(e)\<close>.\<close>

datatype exn = Exn exn_class str

fun exn_class_of :: "exn \<Rightarrow> exn_class" where
  "exn_class_of (Exn c m) = c"

fun str_of_exn :: "exn \<Rightarrow> str" where
  "str_of_exn (Exn c m) = m"

subsection \<open>String operations\<close>

text \<open>\<open>sub in s\<close>: some suffix of \<open>s\<close> starts with \<open>sub\<close>.\<close>

fun contains :: "'a list \<Rightarrow> 'a list \<Rightarrow> bool" where
  "contains sub [] = (sub = [])"
| "contains sub (c # cs) = (prefix sub (c # cs) \<or> contains sub cs)"

text \<open>
  \<open>s.replace(old, new)\<close>: every non-overlapping occurrence of \<open>old\<close>, scanning from
  the left. With an empty \<open>old\<close> Python puts \<open>new\<close> before every character and at the end.
\<close>

function str_replace :: "'a list \<Rightarrow> 'a list \<Rightarrow> 'a list \<Rightarrow> 'a list" where
  "str_replace old new s =
     (if old = [] then new @ concat (map (\<lambda>c. c # new) s)
      else if s = [] then []
      else if prefix old s then new @ str_replace old new (drop (length old) s)
      else hd s # str_replace old new (tl s))"
  by pat_completeness auto
termination
  by (relation "measure (\<lambda>(old, new, s). length s)") (auto simp: neq_Nil_conv)

declare str_replace.simps [simp del]

text \<open>\<open>sep.join(parts)\<close>.\<close>

fun join :: "'a list \<Rightarrow> 'a list list \<Rightarrow> 'a list" where
  "join sep [] = []"
| "join sep [p] = p"
| "join sep (p # q # ps) = p @ sep @ join sep (q # ps)"

text \<open>The decimal digit \<open>d\<close> as a code point, and \<open>str(n)\<close> of a natural number.\<close>

definition digit :: "nat \<Rightarrow> nat" where
  "digit d = 48 + d"

function str_nat :: "nat \<Rightarrow> str" where
  "str_nat n = (if n < 10 then [digit n] else str_nat (n div 10) @ [digit (n mod 10)])"
  by pat_completeness auto
termination
  by (relation "measure id") auto

declare str_nat.simps [simp del]

definition str_int :: "int \<Rightarrow> str" where
  "str_int i = (if i < 0 then ustr ''-'' @ str_nat (nat (- i)) else str_nat (nat i))"

text \<open>The format specification \<open>,\<close> of an f-string: a comma between groups of three digits.\<close>

function group3 :: "str \<Rightarrow> str" where
  "group3 ds =
     (if length ds \<le> 3 then ds
      else group3 (take (length ds - 3) ds) @ ustr '','' @ drop (length ds - 3) ds)"
  by pat_completeness auto
termination
  by (relation "measure length") auto

declare group3.simps [simp del]

definition format_thousands :: "nat \<Rightarrow> str" where
  "format_thousands n = group3 (str_nat n)"

subsection \<open>UTF-8\<close>

text \<open>
  \<open>s.encode("utf-8")\<close>. A surrogate code point cannot be encoded: Python raises
  \<open>UnicodeEncodeError\<close>.
\<close>

definition utf8_char :: "nat \<Rightarrow> bytes option" where
  "utf8_char c =
     (if c < 0x80 then Some [of_nat c]
      else if c < 0x800 then Some [of_nat (0xC0 + c div 64), of_nat (0x80 + c mod 64)]
      else if 0xD800 \<le> c \<and> c < 0xE000 then None
      else if c < 0x10000 then
        Some [of_nat (0xE0 + c div 4096), of_nat (0x80 + c div 64 mod 64), of_nat (0x80 + c mod 64)]
      else if c < 0x110000 then
        Some [of_nat (0xF0 + c div 262144), of_nat (0x80 + c div 4096 mod 64),
              of_nat (0x80 + c div 64 mod 64), of_nat (0x80 + c mod 64)]
      else None)"

fun encode_utf8 :: "str \<Rightarrow> exn + bytes" where
  "encode_utf8 [] = Inr []"
| "encode_utf8 (c # cs) =
     (case utf8_char c of
        None \<Rightarrow> Inl (Exn UnicodeEncodeError (ustr ''surrogates not allowed''))
      | Some bs \<Rightarrow> (case encode_utf8 cs of Inl e \<Rightarrow> Inl e | Inr rest \<Rightarrow> Inr (bs @ rest)))"

subsection \<open>float64 and the format specification .3f\<close>

text \<open>
  The value classes of a binary64 bit pattern. \<open>Finite s m e\<close> is the number
  \<open>(-1)^s * m * 2^e\<close>; the sign is kept for zero as well.
\<close>

datatype fpclass = Finite bool nat int | Infinite bool | NaN

definition decode_f64 :: "float64 \<Rightarrow> fpclass" where
  "decode_f64 w =
     (let s = bit w 63;
          ex = unat (drop_bit 52 w AND 0x7FF);
          fr = unat (w AND 0xFFFFFFFFFFFFF)
      in if ex = 2047 then (if fr = 0 then Infinite s else NaN)
         else if ex = 0 then Finite s fr (- 1074)
         else Finite s (2 ^ 52 + fr) (int ex - 1075))"

text \<open>\<open>num / den\<close> rounded to the nearest integer, a tie to the even one.\<close>

definition round_half_even :: "nat \<Rightarrow> nat \<Rightarrow> nat" where
  "round_half_even num den =
     (let q = num div den; r = num mod den
      in if 2 * r < den then q
         else if den < 2 * r then q + 1
         else if even q then q else q + 1)"

text \<open>\<open>m * 2^e * 1000\<close>, correctly rounded: the number of thousandths that \<open>.3f\<close> prints.\<close>

definition thousandths :: "nat \<Rightarrow> int \<Rightarrow> nat" where
  "thousandths m e =
     (if 0 \<le> e then m * 2 ^ nat e * 1000
      else round_half_even (m * 1000) (2 ^ nat (- e)))"

definition fixed3 :: "bool \<Rightarrow> nat \<Rightarrow> str" where
  "fixed3 s n =
     (if s then ustr ''-'' else []) @ str_nat (n div 1000) @ ustr ''.'' @
     [digit (n mod 1000 div 100), digit (n mod 100 div 10), digit (n mod 10)]"

text \<open>\<open>f"{a:.3f}"\<close> for a float64 \<open>a\<close>.\<close>

definition format_3f :: "float64 \<Rightarrow> str" where
  "format_3f a =
     (case decode_f64 a of
        NaN \<Rightarrow> ustr ''nan''
      | Infinite s \<Rightarrow> (if s then ustr ''-inf'' else ustr ''inf'')
      | Finite s m e \<Rightarrow> fixed3 s (thousandths m e))"

subsection \<open>float64 as text: the shortest representation\<close>

text \<open>
  \<open>DataFrame.to_csv\<close> without a \<open>float_format\<close> converts a float64 column with
  \<open>values.astype(str)\<close>: the shortest decimal digit string that reads back as the same
  binary64, the one nearest to the value among the shortest, printed as Python's
  \<open>repr\<close> prints it. The comparisons below are exact: a binary quantity \<open>x * 2^E\<close> and a
  decimal one \<open>d * 10^p\<close> are brought to a common integer scale by multiplying the first
  by \<open>bin_scale E p\<close> and the second by \<open>dec_scale E p\<close>.
\<close>

definition bin_scale :: "int \<Rightarrow> int \<Rightarrow> nat" where
  "bin_scale E p = 2 ^ nat E * 10 ^ nat (- p)"

definition dec_scale :: "int \<Rightarrow> int \<Rightarrow> nat" where
  "dec_scale E p = 2 ^ nat (- E) * 10 ^ nat p"

function lead_zeros :: "nat \<Rightarrow> nat \<Rightarrow> nat \<Rightarrow> nat" where
  "lead_zeros m d j =
     (if m = 0 \<or> d \<le> m * 10 ^ (j + 1) then j else lead_zeros m d (j + 1))"
  by pat_completeness auto
termination
proof (relation "measure (\<lambda>(m, d, j). d - m * 10 ^ (j + 1))")
  show "wf (measure (\<lambda>(m, d, j). d - m * 10 ^ (j + 1)))"
    by simp
next
  fix m d j :: nat
  assume a: "\<not> (m = 0 \<or> d \<le> m * 10 ^ (j + 1))"
  then have less: "m * 10 ^ (j + 1) < m * 10 ^ (j + 1 + 1)"
    by simp
  from a have below: "m * 10 ^ (j + 1) < d"
    by simp
  from less below have "d - m * 10 ^ (j + 1 + 1) < d - m * 10 ^ (j + 1)"
    by (rule diff_less_mono2)
  then show "((m, d, j + 1), (m, d, j)) \<in> measure (\<lambda>(m, d, j). d - m * 10 ^ (j + 1))"
    by simp
qed

declare lead_zeros.simps [simp del]

text \<open>The decimal exponent \<open>k\<close> of \<open>m * 2^e\<close> for \<open>m > 0\<close>: \<open>10^(k-1) \<le> m * 2^e < 10^k\<close>.\<close>

definition dec_exp :: "nat \<Rightarrow> int \<Rightarrow> int" where
  "dec_exp m e =
     (if 0 \<le> e then int (length (str_nat (m * 2 ^ nat e)))
      else if 2 ^ nat (- e) \<le> m then int (length (str_nat (m div 2 ^ nat (- e))))
      else - int (lead_zeros m (2 ^ nat (- e)) 0))"

text \<open>
  Whether the decimal \<open>d * 10^p\<close> reads back as the binary64 \<open>m * 2^e\<close>: it lies between the
  midpoints to the two neighbouring binary64 values, in units of \<open>2^(e-2)\<close>. The lower
  neighbour is half as far where \<open>m\<close> is the least mantissa of its binade. A midpoint itself
  reads back as the value with the even mantissa. \<open>A\<close> and \<open>B\<close> are the two scales.
\<close>

definition reads_back :: "nat \<Rightarrow> int \<Rightarrow> nat \<Rightarrow> nat \<Rightarrow> nat \<Rightarrow> bool" where
  "reads_back m e A B d =
     (let lo = 4 * m - (if m = 2 ^ 52 \<and> - 1074 < e then 1 else 2);
          hi = 4 * m + 2
      in if even m then lo * A \<le> d * B \<and> d * B \<le> hi * A
         else lo * A < d * B \<and> d * B < hi * A)"

text \<open>
  The shortest digits, tried with \<open>n = 1, 2, ...\<close> significant digits: the two \<open>n\<close>-digit
  decimals around the value are \<open>dl * 10^(k-n)\<close> and \<open>(dl + 1) * 10^(k-n)\<close>. The search
  ends at the latest where the decimal expansion of the value is exact: with
  \<open>k + max (2 - e) 0\<close> digits \<open>dl * 10^(k-n)\<close> is the value itself (no binary64 needs more
  than 17 digits).
\<close>

function shortest_from :: "nat \<Rightarrow> int \<Rightarrow> int \<Rightarrow> nat \<Rightarrow> nat \<times> nat" where
  "shortest_from m e k n =
     (let p = k - int n;
          A = bin_scale (e - 2) p;
          B = dec_scale (e - 2) p;
          dl = (4 * m * A) div B;
          dh = dl + 1;
          r = 4 * m * A - dl * B;
          il = reads_back m e A B dl;
          ih = reads_back m e A B dh
      in if il \<and> ih then
           (if 2 * r < B then (dl, n)
            else if B < 2 * r then (dh, n)
            else if even dl then (dl, n) else (dh, n))
         else if il then (dl, n)
         else if ih then (dh, n)
         else if k + max (2 - e) 0 \<le> int n then (dl, n)
         else shortest_from m e k (n + 1))"
  by pat_completeness auto
termination
proof (relation "measure (\<lambda>(m, e, k, n). nat (k + max (2 - e) 0 - int n))")
  show "wf (measure (\<lambda>(m :: nat, e :: int, k :: int, n :: nat). nat (k + max (2 - e) 0 - int n)))"
    by simp
next
  fix m :: nat and e k :: int and n :: nat
  assume "\<not> k + max (2 - e) 0 \<le> int n"
  then show "((m, e, k, n + 1), (m, e, k, n))
      \<in> measure (\<lambda>(m, e, k, n). nat (k + max (2 - e) 0 - int n))"
    by simp
qed

declare shortest_from.simps [simp del]

definition rstrip0 :: "str \<Rightarrow> str" where
  "rstrip0 ds = rev (dropWhile (\<lambda>c. c = 48) (rev ds))"

text \<open>
  The digits \<open>ds\<close> with the decimal point \<open>k\<close> places from their left, as \<open>repr\<close> lays them
  out: positional for \<open>-4 < k \<le> 16\<close>, with an exponent of at least two digits otherwise.
\<close>

definition repr_digits :: "str \<Rightarrow> int \<Rightarrow> str" where
  "repr_digits ds k =
     (if - 4 < k \<and> k \<le> 16 then
        (if k \<le> 0 then ustr ''0.'' @ replicate (nat (- k)) 48 @ ds
         else if k < int (length ds) then take (nat k) ds @ ustr ''.'' @ drop (nat k) ds
         else ds @ replicate (nat (k - int (length ds))) 48 @ ustr ''.0'')
      else
        take 1 ds @ (if 1 < length ds then ustr ''.'' @ drop 1 ds else []) @ ustr ''e'' @
        (if k - 1 < 0 then ustr ''-'' else ustr ''+'') @
        (if \<bar>k - 1\<bar> < 10 then ustr ''0'' else []) @ str_nat (nat \<bar>k - 1\<bar>))"

text \<open>
  The digits \<open>d\<close> found with \<open>n\<close> significant digits stand for \<open>d * 10^(k-n)\<close>: the
  decimal point is \<open>k - n\<close> places to the right of the last digit of \<open>d\<close>. Trailing
  zeros are not printed.
\<close>

definition float_str :: "float64 \<Rightarrow> str" where
  "float_str v =
     (case decode_f64 v of
        NaN \<Rightarrow> ustr ''nan''
      | Infinite s \<Rightarrow> (if s then ustr ''-inf'' else ustr ''inf'')
      | Finite s m e \<Rightarrow>
          (if s then ustr ''-'' else []) @
          (if m = 0 then ustr ''0.0''
           else
             let k = dec_exp m e;
                 dn = shortest_from m e k 1;
                 ds = str_nat (fst dn)
             in repr_digits (rstrip0 ds) (k - int (snd dn) + int (length ds))))"

section \<open>The decoded point data and the two exports\<close>

text \<open>
  \<open>np.asarray(las.x)\<close> is a float64 array: one-dimensional, or zero-dimensional when the
  decoder hands back a bare scalar. \<open>np.atleast_1d\<close> turns the latter into one element.
\<close>

datatype ndarray = Scalar float64 | Array "float64 list"

record las_data =
  las_x :: ndarray
  las_y :: ndarray
  las_z :: ndarray

fun atleast_1d :: "ndarray \<Rightarrow> float64 list" where
  "atleast_1d (Scalar v) = [v]"
| "atleast_1d (Array vs) = vs"

datatype output_format = CSV | XYZ

subsection \<open>CSV: \<open>pd.DataFrame({"X": x, "Y": y, "Z": z}).to_csv(index=False)\<close>\<close>

text \<open>
  The constructor raises \<open>ValueError\<close> for columns of different lengths. \<open>to_csv\<close>
  writes the header and one record per row, every record closed by the line terminator
  (\<open>os.linesep\<close>, a line feed on POSIX); a missing value (NaN) is written as the empty
  field \<open>na_rep\<close>.
\<close>

record dataframe =
  df_columns :: "str list"
  df_rows :: "float64 list list"

definition DataFrame :: "float64 list \<Rightarrow> float64 list \<Rightarrow> float64 list \<Rightarrow> exn + dataframe" where
  "DataFrame x y z =
     (if length x = length y \<and> length y = length z then
        Inr \<lparr>df_columns = [ustr ''X'', ustr ''Y'', ustr ''Z''],
             df_rows = map (\<lambda>(a, b, c). [a, b, c]) (zip x (zip y z))\<rparr>
      else Inl (Exn ValueError (ustr ''All arrays must be of the same length'')))"

definition isna :: "float64 \<Rightarrow> bool" where
  "isna v = (decode_f64 v = NaN)"

definition csv_field :: "float64 \<Rightarrow> str" where
  "csv_field v = (if isna v then [] else float_str v)"

definition to_csv :: "dataframe \<Rightarrow> str" where
  "to_csv df =
     join (ustr '','') (df_columns df) @ newline @
     concat (map (\<lambda>row. join (ustr '','') (map csv_field row) @ newline) (df_rows df))"

subsection \<open>XYZ: \<open>np.column_stack\<close> and the joined lines\<close>

definition column_stack ::
  "float64 list \<Rightarrow> float64 list \<Rightarrow> float64 list \<Rightarrow> exn + (float64 \<times> float64 \<times> float64) list" where
  "column_stack x y z =
     (if length x = length y \<and> length y = length z then Inr (zip x (zip y z))
      else Inl (Exn ValueError
        (ustr ''all the input array dimensions except for the concatenation axis must match exactly'')))"

definition xyz_line :: "float64 \<times> float64 \<times> float64 \<Rightarrow> str" where
  "xyz_line r =
     (case r of (a, b, c) \<Rightarrow> format_3f a @ ustr '' '' @ format_3f b @ ustr '' '' @ format_3f c)"

definition xyz_str :: "(float64 \<times> float64 \<times> float64) list \<Rightarrow> str" where
  "xyz_str xyz = join newline (map xyz_line xyz)"

section \<open>The script\<close>

text \<open>
  What one run of the script shows, in order: the Streamlit calls with their arguments.
  \<open>St_write_decoded b\<close> is \<open>st.write(b.decode("utf-8", errors="replace"))\<close>; an exception
  that no handler catches ends the run as \<open>Uncaught\<close>. Spinners are not recorded.
  \<open>St_download_button label data file_name mime\<close> offers \<open>data\<close> for download.
\<close>

datatype st_call =
    St_error str
  | St_write str
  | St_write_decoded bytes
  | St_info str
  | St_success str
  | St_download_button str bytes str str
  | St_button str
  | Uncaught exn

subsection \<open>Upload path (lines 31 to 92)\<close>

record uploaded =
  up_name :: str
  up_bytes :: bytes

text \<open>
  The body of the \<open>try\<close>: the calls made, and the exception that ended it, if any.
  \<open>read\<close> is \<open>laspy.read\<close> on the bytes.
\<close>

definition upload_try ::
  "(bytes \<Rightarrow> exn + las_data) \<Rightarrow> output_format \<Rightarrow> uploaded \<Rightarrow> st_call list \<times> exn option" where
  "upload_try read fmt uploaded_file =
     (case read (up_bytes uploaded_file) of
        Inl e \<Rightarrow> ([], Some e)
      | Inr las \<Rightarrow>
          let x = atleast_1d (las_x las);
              y = atleast_1d (las_y las);
              z = atleast_1d (las_z las)
          in if \<not> (length x = length y \<and> length y = length z) then
               ([], Some (Exn ValueError (ustr ''Coordinate arrays have mismatched lengths'')))
             else
               let loaded = St_success (ustr ''Loaded '' @ format_thousands (length x) @
                              ustr '' points successfully '' @ [0x2705])
               in (case fmt of
                     CSV \<Rightarrow>
                       (case DataFrame x y z of
                          Inl e \<Rightarrow> ([loaded], Some e)
                        | Inr df \<Rightarrow>
                            (case encode_utf8 (to_csv df) of
                               Inl e \<Rightarrow> ([loaded], Some e)
                             | Inr csv_bytes \<Rightarrow>
                                 ([loaded,
                                   St_download_button ([0x1F4E5] @ ustr '' Download CSV file'')
                                     csv_bytes
                                     (str_replace (ustr ''.laz'') (ustr ''.csv'') (up_name uploaded_file))
                                     (ustr ''text/csv'')], None)))
                   | XYZ \<Rightarrow>
                       (case column_stack x y z of
                          Inl e \<Rightarrow> ([loaded], Some e)
                        | Inr xyz \<Rightarrow>
                            (case encode_utf8 (xyz_str xyz) of
                               Inl e \<Rightarrow> ([loaded], Some e)
                             | Inr xyz_bytes \<Rightarrow>
                                 ([loaded,
                                   St_download_button ([0x1F4E5] @ ustr '' Download XYZ file'')
                                     xyz_bytes
                                     (str_replace (ustr ''.laz'') (ustr ''.xyz'') (up_name uploaded_file))
                                     (ustr ''text/plain'')], None)))))"

text \<open>
  The handler \<open>except Exception as e\<close>. \<open>install_clicked\<close> is the state of the button
  "Install lazrs now"; \<open>pip\<close> is what \<open>subprocess.check_call\<close> of the installer raises,
  if anything.
\<close>

definition backend_hint :: str where
  "backend_hint =
     ustr ''Install a LAZ backend such as `lazrs` (recommended) or `laszip`.'' @ newline @ newline @
     ustr ''Recommended command:'' @ newline @ ustr ''```'' @ newline @
     ustr ''python3 -m pip install lazrs'' @ newline @ ustr ''```''"

definition upload_except :: "bool \<Rightarrow> exn option \<Rightarrow> exn \<Rightarrow> st_call list" where
  "upload_except install_clicked pip e =
     (let msg = str_of_exn e
      in if contains (ustr ''No LazBackend'') msg \<or> contains (ustr ''cannot decompress'') msg \<or>
            contains (ustr ''LazBackend'') msg then
           [St_error (ustr ''LAZ backend not available '' @ [0x2014] @
                      ustr '' Streamlit can't decompress .laz data.''),
            St_write backend_hint,
            St_button (ustr ''Install lazrs now'')] @
           (if install_clicked then
              (case pip of
                 Some ex \<Rightarrow>
                   [St_error (ustr ''Installation failed: '' @ str_of_exn ex),
                    St_write (ustr ''Run the install command in your terminal if this fails.'')]
               | None \<Rightarrow>
                   [St_success (ustr
                      ''lazrs installed. Please restart the app (streamlit run streamlit_app.py).'')])
            else [])
         else [St_error (ustr ''Error converting file: '' @ msg)])"

definition upload_path ::
  "(bytes \<Rightarrow> exn + las_data) \<Rightarrow> output_format \<Rightarrow> bool \<Rightarrow> exn option \<Rightarrow> uploaded option
   \<Rightarrow> st_call list" where
  "upload_path read fmt install_clicked pip uploaded_file =
     (case uploaded_file of
        None \<Rightarrow> [St_info (ustr ''Please upload a .laz file to start.'')]
      | Some f \<Rightarrow>
          (case upload_try read fmt f of
             (calls, None) \<Rightarrow> calls
           | (calls, Some e) \<Rightarrow> calls @ upload_except install_clicked pip e))"

subsection \<open>URL path (lines 94 to 173)\<close>

text \<open>
  The selected authentication with what was typed into its fields, and the arguments of
  \<open>requests.get\<close> built from it (\<open>stream\<close>, \<open>timeout\<close> and \<open>allow_redirects\<close> are
  constants of the call).
\<close>

datatype auth_input = No_auth | Bearer_token str | Basic_auth str str

record request =
  req_url :: str
  req_headers :: "(str \<times> str) list option"
  req_auth :: "(str \<times> str) option"

definition build_request :: "str \<Rightarrow> auth_input \<Rightarrow> request" where
  "build_request laz_url a =
     (case a of
        No_auth \<Rightarrow> \<lparr>req_url = laz_url, req_headers = None, req_auth = None\<rparr>
      | Bearer_token token \<Rightarrow>
          \<lparr>req_url = laz_url,
           req_headers = (if token \<noteq> [] then Some [(ustr ''Authorization'', ustr ''Bearer '' @ token)]
                          else None),
           req_auth = None\<rparr>
      | Basic_auth user pwd \<Rightarrow>
          \<lparr>req_url = laz_url, req_headers = None,
           req_auth = (if user \<noteq> [] \<or> pwd \<noteq> [] then Some (user, pwd) else None)\<rparr>)"

text \<open>
  The response, with its body received. A header value is the octets of the header line
  decoded as ISO-8859-1, one character per octet; \<open>content_type\<close> is the header
  \<open>content-type\<close>, if the response has one.
\<close>

record response =
  status_code :: int
  reason :: str
  r_text :: str
  r_content :: bytes
  content_type :: "string option"

text \<open>\<open>bytes.lower()\<close> changes the ASCII letters only.\<close>

definition lower_byte :: "8 word \<Rightarrow> 8 word" where
  "lower_byte b = (if 0x41 \<le> b \<and> b \<le> 0x5A then b + 0x20 else b)"

text \<open>
  \<open>str.lower()\<close> on the characters up to U+00FF: the ASCII capitals, and the capitals
  U+00C0 to U+00DE except the multiplication sign.
\<close>

definition lower_char :: "char \<Rightarrow> char" where
  "lower_char c =
     (let n = (of_char c :: nat)
      in if (0x41 \<le> n \<and> n \<le> 0x5A) \<or> (0xC0 \<le> n \<and> n \<le> 0xDE \<and> n \<noteq> 0xD7)
         then char_of (n + 0x20) else c)"

text \<open>A bytes literal.\<close>

definition blit :: "string \<Rightarrow> bytes" where
  "blit s = map of_char s"

text \<open>The guard of lines 122 to 126: the body or the content type looks like a web page.\<close>

definition looks_like_html :: "response \<Rightarrow> bool" where
  "looks_like_html r =
     (let data = r_content r;
          pfx = map lower_byte (take 8 data);
          ct = map lower_char (case content_type r of None \<Rightarrow> [] | Some v \<Rightarrow> v)
      in prefix (blit ''<!do'') pfx \<or> prefix (blit ''<html'') pfx \<or>
         prefix (blit ''<?xml'') pfx \<or> contains ''html'' ct)"

text \<open>The body of the \<open>try\<close> once \<open>requests.get\<close> has returned \<open>r\<close>.\<close>

definition url_body ::
  "(bytes \<Rightarrow> exn + las_data) \<Rightarrow> output_format \<Rightarrow> response \<Rightarrow> st_call list \<times> exn option" where
  "url_body read fmt r =
     (if status_code r \<noteq> 200 then
        ([St_error (ustr ''HTTP '' @ str_int (status_code r) @ ustr '': '' @ reason r),
          St_write (take 1000 (r_text r))],
         Some (Exn RuntimeError (ustr ''HTTP '' @ str_int (status_code r))))
      else
        let data = r_content r
        in if looks_like_html r then
             ([St_error (ustr
                 ''URL returned HTML (likely an error/redirect page) instead of a .laz file.''),
               St_write_decoded (take 500 data)],
              Some (Exn RuntimeError (ustr ''URL returned HTML'')))
           else
             (case read data of
                Inl e \<Rightarrow> ([], Some e)
              | Inr las \<Rightarrow>
                  let x = atleast_1d (las_x las);
                      y = atleast_1d (las_y las);
                      z = atleast_1d (las_z las)
                  in if \<not> (length x = length y \<and> length y = length z) then
                       ([], Some (Exn ValueError (ustr ''Coordinate arrays have mismatched lengths'')))
                     else
                       let loaded = St_success (ustr ''Downloaded and loaded '' @
                                      format_thousands (length x) @ ustr '' points'')
                       in (case fmt of
                             CSV \<Rightarrow>
                               (case DataFrame x y z of
                                  Inl e \<Rightarrow> ([loaded], Some e)
                                | Inr df \<Rightarrow>
                                    (case encode_utf8 (to_csv df) of
                                       Inl e \<Rightarrow> ([loaded], Some e)
                                     | Inr csv_bytes \<Rightarrow>
                                         ([loaded,
                                           St_download_button
                                             ([0x1F4E5] @ ustr '' Download CSV file'')
                                             csv_bytes (ustr ''downloaded_file.csv'')
                                             (ustr ''text/csv'')], None)))
                           | XYZ \<Rightarrow>
                               (case column_stack x y z of
                                  Inl e \<Rightarrow> ([loaded], Some e)
                                | Inr xyz \<Rightarrow>
                                    (case encode_utf8 (xyz_str xyz) of
                                       Inl e \<Rightarrow> ([loaded], Some e)
                                     | Inr xyz_bytes \<Rightarrow>
                                         ([loaded,
                                           St_download_button
                                             ([0x1F4E5] @ ustr '' Download XYZ file'')
                                             xyz_bytes (ustr ''downloaded_file.xyz'')
                                             (ustr ''text/plain'')], None))))))"

text \<open>
  The two handlers, tried in order: \<open>except requests.HTTPError\<close>, then
  \<open>except Exception\<close>. The first reads \<open>r\<close>, which is unbound when \<open>requests.get\<close> itself
  raised: the \<open>NameError\<close> leaves the handler uncaught.
\<close>

definition url_except :: "response option \<Rightarrow> exn \<Rightarrow> st_call list" where
  "url_except r e =
     (if exn_class_of e = HTTPError then
        (case r of
           None \<Rightarrow> [Uncaught (Exn NameError (ustr ''name 'r' is not defined''))]
         | Some r \<Rightarrow>
             if status_code r = 401 then
               [St_error (ustr ''401 Unauthorized: the URL requires credentials or a presigned URL.''),
                St_info (ustr ''Use a presigned URL (S3) or provide token/username+password above.'')]
             else
               [St_error (ustr ''HTTP error: '' @ str_int (status_code r) @ ustr '' '' @ reason r)])
      else
        [St_error (ustr ''Failed to fetch/parse URL: '' @ str_of_exn e),
         St_info (ustr (''Ensure the URL points directly to the .laz file (use presigned S3 URL, '' @
                        ''add ?dl=1 for Dropbox, or enable public GET).''))])"

text \<open>The run for a fetched response \<open>r\<close>: the body of the \<open>try\<close>, then the handler.\<close>

definition url_response ::
  "(bytes \<Rightarrow> exn + las_data) \<Rightarrow> output_format \<Rightarrow> response \<Rightarrow> st_call list" where
  "url_response read fmt r =
     (case url_body read fmt r of
        (calls, None) \<Rightarrow> calls
      | (calls, Some e) \<Rightarrow> calls @ url_except (Some r) e)"

definition url_path ::
  "(request \<Rightarrow> exn + response) \<Rightarrow> (bytes \<Rightarrow> exn + las_data) \<Rightarrow> output_format \<Rightarrow> str \<Rightarrow> auth_input
   \<Rightarrow> st_call list" where
  "url_path get read fmt laz_url a =
     (if laz_url = [] then []
      else
        (case get (build_request laz_url a) of
           Inl e \<Rightarrow> url_except None e
         | Inr r \<Rightarrow> url_response read fmt r))"

subsection \<open>What a run offers for download\<close>

text \<open>The data and the MIME type of every download button among the calls of a run.\<close>

fun exported :: "st_call list \<Rightarrow> (bytes \<times> str) list" where
  "exported [] = []"
| "exported (St_download_button label data file_name mime # cs) = (data, mime) # exported cs"
| "exported (c # cs) = exported cs"

subsection \<open>Reading an exported text\<close>

text \<open>
  \<open>s.split(c)\<close> for a single character \<open>c\<close>: the pieces of \<open>s\<close> between the occurrences
  of \<open>c\<close>. It is used to state what the lines and fields of an export are.
\<close>

fun split_on :: "'a \<Rightarrow> 'a list \<Rightarrow> 'a list list" where
  "split_on c [] = [[]]"
| "split_on c (x # xs) =
     (if x = c then [] # split_on c xs
      else (x # hd (split_on c xs)) # tl (split_on c xs))"

definition is_digit :: "nat \<Rightarrow> bool" where
  "is_digit c = (48 \<le> c \<and> c \<le> 57)"

text \<open>\<open>np.isfinite\<close>: neither NaN nor an infinity.\<close>

definition isfinite :: "float64 \<Rightarrow> bool" where
  "isfinite v = (case decode_f64 v of Finite s m e \<Rightarrow> True | Infinite s \<Rightarrow> False | NaN \<Rightarrow> False)"

definition finite_row :: "float64 \<times> float64 \<times> float64 \<Rightarrow> bool" where
  "finite_row r = (case r of (a, b, c) \<Rightarrow> isfinite a \<and> isfinite b \<and> isfinite c)"

text \<open>The number that a string of decimal digits denotes.\<close>

definition digits_value :: "str \<Rightarrow> nat" where
  "digits_value ds = foldl (\<lambda>a c. 10 * a + (c - 48)) 0 ds"

subsection \<open>Reading a CSV text back\<close>

text \<open>
  Modelled from the spec: the repository has no reader for its CSV export; "parsing the
  CSV text back" is taken as a conventional reader. The text is cut into records at the
  line terminator and each record into fields at the comma. An empty field is a missing
  value (NaN), \<open>inf\<close> and \<open>-inf\<close> are the infinities, and any other field is a decimal
  numeral, a sign, digits, an optional fraction and an optional exponent, which denotes
  the binary64 nearest to its value, a tie going to the even mantissa.
\<close>

definition all_digits :: "str \<Rightarrow> bool" where
  "all_digits t = (t \<noteq> [] \<and> list_all is_digit t)"

definition parse_exponent :: "str \<Rightarrow> int option" where
  "parse_exponent t =
     (case t of
        [] \<Rightarrow> None
      | c # cs \<Rightarrow>
          if c = 43 \<and> all_digits cs then Some (int (digits_value cs))
          else if c = 45 \<and> all_digits cs then Some (- int (digits_value cs))
          else if all_digits t then Some (int (digits_value t))
          else None)"

text \<open>The digits of a mantissa as a number, and how many of them follow the point.\<close>

definition parse_mantissa :: "str \<Rightarrow> (nat \<times> nat) option" where
  "parse_mantissa t =
     (case split_on 46 t of
        [ip] \<Rightarrow> if all_digits ip then Some (digits_value ip, 0) else None
      | [ip, fp] \<Rightarrow>
          if all_digits ip \<and> all_digits fp then Some (digits_value (ip @ fp), length fp)
          else None
      | _ \<Rightarrow> None)"

text \<open>An unsigned numeral as \<open>(D, P)\<close>: it denotes \<open>D * 10^P\<close>.\<close>

definition parse_unsigned :: "str \<Rightarrow> (nat \<times> int) option" where
  "parse_unsigned t =
     (case split_on 101 t of
        [mt] \<Rightarrow>
          (case parse_mantissa mt of
             None \<Rightarrow> None
           | Some (D, f) \<Rightarrow> Some (D, - int f))
      | [mt, ex] \<Rightarrow>
          (case parse_mantissa mt of
             None \<Rightarrow> None
           | Some (D, f) \<Rightarrow>
               (case parse_exponent ex of
                  None \<Rightarrow> None
                | Some x \<Rightarrow> Some (D, x - int f)))
      | _ \<Rightarrow> None)"

definition parse_decimal :: "str \<Rightarrow> (bool \<times> nat \<times> int) option" where
  "parse_decimal t =
     (case t of
        [] \<Rightarrow> None
      | c # cs \<Rightarrow>
          if c = 45 then
            (case parse_unsigned cs of None \<Rightarrow> None | Some (D, P) \<Rightarrow> Some (True, D, P))
          else
            (case parse_unsigned t of None \<Rightarrow> None | Some (D, P) \<Rightarrow> Some (False, D, P)))"

text \<open>
  Whether the field \<open>t\<close> reads as the binary64 \<open>w\<close>. For a numeral, \<open>w\<close> is finite with
  the sign of the numeral, and the numeral lies between the midpoints to the neighbours
  of \<open>w\<close>, as \<open>reads_back\<close> says.
\<close>

definition reads_as :: "str \<Rightarrow> float64 \<Rightarrow> bool" where
  "reads_as t w =
     (if t = [] \<or> t = ustr ''nan'' then decode_f64 w = NaN
      else if t = ustr ''inf'' then decode_f64 w = Infinite False
      else if t = ustr ''-inf'' then decode_f64 w = Infinite True
      else
        (case parse_decimal t of
           None \<Rightarrow> False
         | Some (s, D, P) \<Rightarrow>
             (case decode_f64 w of
                Finite s' m e \<Rightarrow>
                  s' = s \<and> reads_back m e (bin_scale (e - 2) P) (dec_scale (e - 2) P) D
              | Infinite s' \<Rightarrow> False
              | NaN \<Rightarrow> False)))"

text \<open>The records of a text: its lines, without the empty piece after the last terminator.\<close>

definition csv_records :: "str \<Rightarrow> str list list" where
  "csv_records text =
     (let ls = split_on 10 text
      in map (split_on 44) (if last ls = [] then butlast ls else ls))"

definition row_reads_as :: "str list \<Rightarrow> float64 \<times> float64 \<times> float64 \<Rightarrow> bool" where
  "row_reads_as row r =
     (case r of (a, b, c) \<Rightarrow>
        (case row of
           [fa, fb, fc] \<Rightarrow> reads_as fa a \<and> reads_as fb b \<and> reads_as fc c
         | _ \<Rightarrow> False))"

text \<open>The text reads as the point cloud \<open>x\<close>, \<open>y\<close>, \<open>z\<close>: a header and one record per point.\<close>

definition csv_reads_as :: "str \<Rightarrow> float64 list \<Rightarrow> float64 list \<Rightarrow> float64 list \<Rightarrow> bool" where
  "csv_reads_as text x y z =
     (case csv_records text of
        [] \<Rightarrow> False
      | header # rows \<Rightarrow>
          header = [ustr ''X'', ustr ''Y'', ustr ''Z''] \<and>
          length x = length y \<and> length y = length z \<and>
          list_all2 row_reads_as rows (zip x (zip y z)))"

text \<open>Two coordinates are the same value: the same binary64, or both a missing value.\<close>

definition same_value :: "float64 \<Rightarrow> float64 \<Rightarrow> bool" where
  "same_value v w = (v = w \<or> (isna v \<and> isna w))"

text \<open>Two decimals \<open>d * 10^p\<close> and \<open>D * 10^P\<close> denote the same number.\<close>

definition same_decimal :: "nat \<Rightarrow> int \<Rightarrow> nat \<Rightarrow> int \<Rightarrow> bool" where
  "same_decimal d p D P = (d * 10 ^ nat p * 10 ^ nat (- P) = D * 10 ^ nat P * 10 ^ nat (- p))"

text \<open>
  The interval of \<open>reads_back\<close> with every binary64 brought to the unit \<open>2^(-1076)\<close>:
  the decimal \<open>d * 10^p\<close> is compared with \<open>lo * 2^(e-2)\<close> and \<open>hi * 2^(e-2)\<close>.
\<close>

definition in_interval :: "nat \<Rightarrow> int \<Rightarrow> nat \<Rightarrow> int \<Rightarrow> bool" where
  "in_interval m e d p =
     (let lo = 4 * m - (if m = 2 ^ 52 \<and> - 1074 < e then 1 else 2);
          hi = 4 * m + 2;
          G = 2 ^ nat (e + 1074);
          S = 10 ^ nat (- p);
          X = d * 10 ^ nat p * 2 ^ 1076
      in if even m then lo * G * S \<le> X \<and> X \<le> hi * G * S
         else lo * G * S < X \<and> X < hi * G * S)"

text \<open>The mantissa and exponent of a finite binary64: normal, or subnormal.\<close>

definition valid_f64 :: "nat \<Rightarrow> int \<Rightarrow> bool" where
  "valid_f64 m e =
     ((2 ^ 52 \<le> m \<and> m < 2 ^ 53 \<and> - 1074 \<le> e \<and> e \<le> 971) \<or> (m < 2 ^ 52 \<and> e = - 1074))"

section \<open>Theorems\<close>

subsection \<open>Auxiliary facts\<close>

lemma encode_utf8_ascii:
  "list_all (\<lambda>c. c < 128) s \<Longrightarrow> encode_utf8 s = Inr (map of_nat s)"
  by (induction s) (auto simp: utf8_char_def)

lemma DataFrame_empty:
  "DataFrame [] [] [] = Inr \<lparr>df_columns = [ustr ''X'', ustr ''Y'', ustr ''Z''], df_rows = []\<rparr>"
  by (simp add: DataFrame_def)

lemma to_csv_header_only:
  "to_csv \<lparr>df_columns = [ustr ''X'', ustr ''Y'', ustr ''Z''], df_rows = []\<rparr>
   = ustr ''X,Y,Z'' @ newline"
  by (simp add: to_csv_def ustr_def)

lemma csv_bytes_header_only:
  "encode_utf8 (ustr ''X,Y,Z'' @ newline) = Inr (blit ''X,Y,Z'' @ [0x0A])"
  by (simp add: ustr_def newline_def blit_def utf8_char_def)

lemma format_thousands_0: "format_thousands 0 = ustr ''0''"
  by (simp add: format_thousands_def str_nat.simps group3.simps digit_def ustr_def)

lemma str_replace_example:
  "str_replace (ustr ''.laz'') (ustr ''.csv'') (ustr ''survey.laz.copy.laz'')
   = ustr ''survey.csv.copy.csv''"
  by (simp add: ustr_def str_replace.simps)

lemma upload_try_empty_csv:
  "read (up_bytes f) = Inr \<lparr>las_x = Array [], las_y = Array [], las_z = Array []\<rparr> \<Longrightarrow>
   upload_try read CSV f =
     ([St_success (ustr ''Loaded 0 points successfully '' @ [0x2705]),
       St_download_button ([0x1F4E5] @ ustr '' Download CSV file'') (blit ''X,Y,Z'' @ [0x0A])
         (str_replace (ustr ''.laz'') (ustr ''.csv'') (up_name f)) (ustr ''text/csv'')], None)"
  apply (simp add: upload_try_def DataFrame_empty to_csv_header_only csv_bytes_header_only
      format_thousands_0)
  apply (simp add: ustr_def)
  done

lemma upload_try_empty_xyz:
  "read (up_bytes f) = Inr \<lparr>las_x = Array [], las_y = Array [], las_z = Array []\<rparr> \<Longrightarrow>
   upload_try read XYZ f =
     ([St_success (ustr ''Loaded 0 points successfully '' @ [0x2705]),
       St_download_button ([0x1F4E5] @ ustr '' Download XYZ file'') []
         (str_replace (ustr ''.laz'') (ustr ''.xyz'') (up_name f)) (ustr ''text/plain'')], None)"
  apply (simp add: upload_try_def column_stack_def xyz_str_def format_thousands_0)
  apply (simp add: ustr_def)
  done

subsection \<open>File names\<close>

lemma str_replace_example_xyz:
  "str_replace (ustr ''.laz'') (ustr ''.xyz'') (ustr ''survey.laz.copy.laz'')
   = ustr ''survey.xyz.copy.xyz''"
  by (simp add: ustr_def str_replace.simps)

lemma str_replace_Nil: "old \<noteq> [] \<Longrightarrow> str_replace old new [] = []"
  by (subst str_replace.simps) simp

lemma laz_not_straddling:
  assumes "\<not> prefix (ustr ''.laz'') (c # cs)"
  shows "\<not> prefix (ustr ''.laz'') ((c # cs) @ ustr ''.laz'')"
proof (cases cs)
  case Nil
  then show ?thesis by (simp add: ustr_def)
next
  case (Cons a as)
  note cs = this
  show ?thesis
  proof (cases as)
    case Nil
    with cs show ?thesis by (simp add: ustr_def)
  next
    case (Cons b bs)
    note as = this
    show ?thesis
    proof (cases bs)
      case Nil
      with cs as show ?thesis by (simp add: ustr_def)
    next
      case (Cons d ds)
      with cs as assms show ?thesis by (simp add: ustr_def)
    qed
  qed
qed

text \<open>
  Where \<open>.laz\<close> occurs in the name only as its extension, the replacement does swap the
  extension.
\<close>

lemma laz_not_Nil: "ustr ''.laz'' \<noteq> []"
  by (simp add: ustr_def)

lemma str_replace_extension:
  assumes "\<not> contains (ustr ''.laz'') stem"
  shows "str_replace (ustr ''.laz'') new (stem @ ustr ''.laz'') = stem @ new"
  using assms
proof (induction stem)
  case Nil
  have "str_replace (ustr ''.laz'') new (ustr ''.laz'') = new @ str_replace (ustr ''.laz'') new []"
    using str_replace.simps [of "ustr ''.laz''" new "ustr ''.laz''"] laz_not_Nil
    by simp
  then show ?case
    by (simp add: str_replace_Nil laz_not_Nil)
next
  case (Cons c cs)
  from Cons.prems have np: "\<not> prefix (ustr ''.laz'') (c # cs)"
    and nc: "\<not> contains (ustr ''.laz'') cs"
    by simp_all
  have "\<not> prefix (ustr ''.laz'') ((c # cs) @ ustr ''.laz'')"
    using np by (rule laz_not_straddling)
  then have "str_replace (ustr ''.laz'') new ((c # cs) @ ustr ''.laz'')
      = c # str_replace (ustr ''.laz'') new (cs @ ustr ''.laz'')"
    using str_replace.simps [of "ustr ''.laz''" new "(c # cs) @ ustr ''.laz''"] laz_not_Nil
    by simp
  with Cons.IH [OF nc] show ?case by simp
qed

text \<open>
  Claim C8, at an uploaded file named \<open>survey.laz.copy.laz\<close>: the suggested names of the
  downloads are \<open>survey.csv.copy.csv\<close> and \<open>survey.xyz.copy.xyz\<close>. \<open>str.replace\<close>
  rewrites every \<open>.laz\<close> in the name, not the extension alone, which would give
  \<open>survey.laz.copy.csv\<close> and \<open>survey.laz.copy.xyz\<close>.
\<close>

theorem upload_file_name_replaces_every_laz:
  "upload_path (\<lambda>b. Inr \<lparr>las_x = Array [], las_y = Array [], las_z = Array []\<rparr>) CSV False None
     (Some \<lparr>up_name = ustr ''survey.laz.copy.laz'', up_bytes = []\<rparr>)
   = [St_success (ustr ''Loaded 0 points successfully '' @ [0x2705]),
      St_download_button ([0x1F4E5] @ ustr '' Download CSV file'') (blit ''X,Y,Z'' @ [0x0A])
        (ustr ''survey.csv.copy.csv'') (ustr ''text/csv'')]
   \<and> upload_path (\<lambda>b. Inr \<lparr>las_x = Array [], las_y = Array [], las_z = Array []\<rparr>) XYZ False None
     (Some \<lparr>up_name = ustr ''survey.laz.copy.laz'', up_bytes = []\<rparr>)
   = [St_success (ustr ''Loaded 0 points successfully '' @ [0x2705]),
      St_download_button ([0x1F4E5] @ ustr '' Download XYZ file'') []
        (ustr ''survey.xyz.copy.xyz'') (ustr ''text/plain'')]"
  by (simp add: upload_path_def upload_try_empty_csv upload_try_empty_xyz str_replace_example
      str_replace_example_xyz)

subsection \<open>More auxiliary facts\<close>

lemma str_int_401: "str_int 401 = ustr ''401''"
  by (simp add: str_int_def str_nat.simps digit_def ustr_def)

lemma str_int_404: "str_int 404 = ustr ''404''"
  by (simp add: str_int_def str_nat.simps digit_def ustr_def)

lemma mismatch_not_backend:
  "\<not> contains (ustr ''No LazBackend'') (ustr ''Coordinate arrays have mismatched lengths'')"
  "\<not> contains (ustr ''cannot decompress'') (ustr ''Coordinate arrays have mismatched lengths'')"
  "\<not> contains (ustr ''LazBackend'') (ustr ''Coordinate arrays have mismatched lengths'')"
  by (simp_all add: ustr_def)

lemma ustr_append: "ustr a @ ustr b = ustr (a @ b)"
  by (simp add: ustr_def)

lemma contains_map: "contains sub s \<Longrightarrow> contains (map f sub) (map f s)"
proof (induction s)
  case Nil
  then show ?case by simp
next
  case (Cons c cs)
  from Cons.prems have "prefix sub (c # cs) \<or> contains sub cs" by simp
  then show ?case
  proof
    assume "prefix sub (c # cs)"
    then have "prefix (map f sub) (map f (c # cs))" by (rule map_mono_prefix)
    then show ?thesis by simp
  next
    assume "contains sub cs"
    then have "contains (map f sub) (map f cs)" by (rule Cons.IH)
    then show ?thesis by simp
  qed
qed

lemma lower_html: "map lower_char ''html'' = ''html''"
  by (simp add: lower_char_def)

lemma url_body_empty_csv:
  "status_code r = 200 \<Longrightarrow> \<not> looks_like_html r \<Longrightarrow>
   read (r_content r) = Inr \<lparr>las_x = Array [], las_y = Array [], las_z = Array []\<rparr> \<Longrightarrow>
   url_body read CSV r =
     ([St_success (ustr ''Downloaded and loaded 0 points''),
       St_download_button ([0x1F4E5] @ ustr '' Download CSV file'') (blit ''X,Y,Z'' @ [0x0A])
         (ustr ''downloaded_file.csv'') (ustr ''text/csv'')], None)"
  apply (simp add: url_body_def DataFrame_empty to_csv_header_only csv_bytes_header_only
      format_thousands_0)
  apply (simp add: ustr_def)
  done

lemma url_body_empty_xyz:
  "status_code r = 200 \<Longrightarrow> \<not> looks_like_html r \<Longrightarrow>
   read (r_content r) = Inr \<lparr>las_x = Array [], las_y = Array [], las_z = Array []\<rparr> \<Longrightarrow>
   url_body read XYZ r =
     ([St_success (ustr ''Downloaded and loaded 0 points''),
       St_download_button ([0x1F4E5] @ ustr '' Download XYZ file'') []
         (ustr ''downloaded_file.xyz'') (ustr ''text/plain'')], None)"
  apply (simp add: url_body_def column_stack_def xyz_str_def format_thousands_0)
  apply (simp add: ustr_def)
  done

subsection \<open>The empty point cloud\<close>

text \<open>
  Claim C2: when the decoder returns three empty coordinate arrays, neither export raises.
  The CSV download is exactly the header line \<open>X,Y,Z\<close> with its line terminator and
  no data row; the XYZ download is the empty byte sequence. This holds on the upload path
  and, for a response that passes the status and content guards, on the URL path.
\<close>

theorem empty_point_cloud_exports:
  assumes "read (up_bytes f) = Inr \<lparr>las_x = Array [], las_y = Array [], las_z = Array []\<rparr>"
  shows "upload_try read CSV f =
           ([St_success (ustr ''Loaded 0 points successfully '' @ [0x2705]),
             St_download_button ([0x1F4E5] @ ustr '' Download CSV file'') (blit ''X,Y,Z'' @ [0x0A])
               (str_replace (ustr ''.laz'') (ustr ''.csv'') (up_name f)) (ustr ''text/csv'')], None)
       \<and> upload_try read XYZ f =
           ([St_success (ustr ''Loaded 0 points successfully '' @ [0x2705]),
             St_download_button ([0x1F4E5] @ ustr '' Download XYZ file'') []
               (str_replace (ustr ''.laz'') (ustr ''.xyz'') (up_name f)) (ustr ''text/plain'')], None)
       \<and> (status_code r = 200 \<and> \<not> looks_like_html r \<and> r_content r = up_bytes f \<longrightarrow>
            url_body read CSV r =
              ([St_success (ustr ''Downloaded and loaded 0 points''),
                St_download_button ([0x1F4E5] @ ustr '' Download CSV file'') (blit ''X,Y,Z'' @ [0x0A])
                  (ustr ''downloaded_file.csv'') (ustr ''text/csv'')], None)
          \<and> url_body read XYZ r =
              ([St_success (ustr ''Downloaded and loaded 0 points''),
                St_download_button ([0x1F4E5] @ ustr '' Download XYZ file'') []
                  (ustr ''downloaded_file.xyz'') (ustr ''text/plain'')], None))"
  using assms
  by (simp add: upload_try_empty_csv upload_try_empty_xyz url_body_empty_csv url_body_empty_xyz)

lemma not_html_plain:
  "\<not> looks_like_html \<lparr>status_code = 200, reason = ustr ''OK'', r_text = [], r_content = [],
      content_type = None\<rparr>"
  by (simp add: looks_like_html_def blit_def)

theorem empty_point_cloud_exports_witness:
  "upload_try (\<lambda>b. Inr \<lparr>las_x = Array [], las_y = Array [], las_z = Array []\<rparr>) CSV
       \<lparr>up_name = ustr ''a.laz'', up_bytes = []\<rparr> =
           ([St_success (ustr ''Loaded 0 points successfully '' @ [0x2705]),
             St_download_button ([0x1F4E5] @ ustr '' Download CSV file'') (blit ''X,Y,Z'' @ [0x0A])
               (ustr ''a.csv'') (ustr ''text/csv'')], None)
   \<and> url_body (\<lambda>b. Inr \<lparr>las_x = Array [], las_y = Array [], las_z = Array []\<rparr>) XYZ
       \<lparr>status_code = 200, reason = ustr ''OK'', r_text = [], r_content = [], content_type = None\<rparr> =
              ([St_success (ustr ''Downloaded and loaded 0 points''),
                St_download_button ([0x1F4E5] @ ustr '' Download XYZ file'') []
                  (ustr ''downloaded_file.xyz'') (ustr ''text/plain'')], None)"
  using empty_point_cloud_exports
    [of "\<lambda>b. Inr \<lparr>las_x = Array [], las_y = Array [], las_z = Array []\<rparr>"
        "\<lparr>up_name = ustr ''a.laz'', up_bytes = []\<rparr>"
        "\<lparr>status_code = 200, reason = ustr ''OK'', r_text = [], r_content = [], content_type = None\<rparr>"]
    not_html_plain
  by (simp add: str_replace.simps ustr_def)

subsection \<open>Coordinate arrays of different lengths\<close>

lemma upload_except_mismatch:
  "upload_except install_clicked pip
     (Exn ValueError (ustr ''Coordinate arrays have mismatched lengths''))
   = [St_error (ustr ''Error converting file: Coordinate arrays have mismatched lengths'')]"
  by (simp add: upload_except_def mismatch_not_backend ustr_append)

lemma url_except_mismatch:
  "url_except (Some r) (Exn ValueError (ustr ''Coordinate arrays have mismatched lengths''))
   = [St_error (ustr ''Failed to fetch/parse URL: Coordinate arrays have mismatched lengths''),
      St_info (ustr (''Ensure the URL points directly to the .laz file (use presigned S3 URL, '' @
                     ''add ?dl=1 for Dropbox, or enable public GET).''))]"
  by (simp add: url_except_def ustr_append)

text \<open>
  Claim C4: when the three coordinate arrays of a decode result do not all have the same
  length, the conversion raises the \<open>ValueError\<close> "Coordinate arrays have mismatched
  lengths" before anything is shown; the run shows the error message alone, so no array
  is cut to a common length and nothing is offered for download. This holds on the upload
  path and, for a response that passes the status and content guards, on the URL path.
\<close>

theorem mismatched_lengths_raise:
  assumes "read (up_bytes f) = Inr las"
    and "\<not> (length (atleast_1d (las_x las)) = length (atleast_1d (las_y las)) \<and>
            length (atleast_1d (las_y las)) = length (atleast_1d (las_z las)))"
  shows "upload_try read fmt f =
           ([], Some (Exn ValueError (ustr ''Coordinate arrays have mismatched lengths'')))
       \<and> upload_path read fmt install_clicked pip (Some f) =
           [St_error (ustr ''Error converting file: Coordinate arrays have mismatched lengths'')]
       \<and> exported (upload_path read fmt install_clicked pip (Some f)) = []
       \<and> (status_code r = 200 \<and> \<not> looks_like_html r \<and> r_content r = up_bytes f \<longrightarrow>
            url_body read fmt r =
              ([], Some (Exn ValueError (ustr ''Coordinate arrays have mismatched lengths'')))
          \<and> url_response read fmt r =
              [St_error (ustr ''Failed to fetch/parse URL: Coordinate arrays have mismatched lengths''),
               St_info (ustr (''Ensure the URL points directly to the .laz file (use presigned S3 URL, '' @
                              ''add ?dl=1 for Dropbox, or enable public GET).''))]
          \<and> exported (url_response read fmt r) = [])"
proof -
  have u: "upload_try read fmt f =
      ([], Some (Exn ValueError (ustr ''Coordinate arrays have mismatched lengths'')))"
    using assms by (simp add: upload_try_def Let_def)
  have p: "upload_path read fmt install_clicked pip (Some f) =
      [St_error (ustr ''Error converting file: Coordinate arrays have mismatched lengths'')]"
    by (simp add: upload_path_def u upload_except_mismatch)
  have b: "url_body read fmt r =
      ([], Some (Exn ValueError (ustr ''Coordinate arrays have mismatched lengths'')))"
    if "status_code r = 200" "\<not> looks_like_html r" "r_content r = up_bytes f"
    using assms that by (simp add: url_body_def Let_def)
  have q: "url_response read fmt r =
      [St_error (ustr ''Failed to fetch/parse URL: Coordinate arrays have mismatched lengths''),
       St_info (ustr (''Ensure the URL points directly to the .laz file (use presigned S3 URL, '' @
                      ''add ?dl=1 for Dropbox, or enable public GET).''))]"
    if "status_code r = 200" "\<not> looks_like_html r" "r_content r = up_bytes f"
    using that by (simp add: url_response_def b url_except_mismatch)
  show ?thesis
    using u p b q by simp
qed

theorem mismatched_lengths_raise_witness:
  "upload_path (\<lambda>b. Inr \<lparr>las_x = Array [1, 2], las_y = Array [1], las_z = Array [1, 2]\<rparr>) CSV
     False None (Some \<lparr>up_name = ustr ''a.laz'', up_bytes = []\<rparr>) =
     [St_error (ustr ''Error converting file: Coordinate arrays have mismatched lengths'')]
   \<and> url_body (\<lambda>b. Inr \<lparr>las_x = Array [1, 2], las_y = Array [1], las_z = Array [1, 2]\<rparr>) CSV
       \<lparr>status_code = 200, reason = ustr ''OK'', r_text = [], r_content = [], content_type = None\<rparr> =
     ([], Some (Exn ValueError (ustr ''Coordinate arrays have mismatched lengths'')))"
  using mismatched_lengths_raise
    [where read = "\<lambda>b. Inr \<lparr>las_x = Array [1, 2], las_y = Array [1], las_z = Array [1, 2]\<rparr>"
       and f = "\<lparr>up_name = ustr ''a.laz'', up_bytes = []\<rparr>"
       and las = "\<lparr>las_x = Array [1, 2], las_y = Array [1], las_z = Array [1, 2]\<rparr>"
       and r = "\<lparr>status_code = 200, reason = ustr ''OK'', r_text = [], r_content = [], content_type = None\<rparr>"
       and fmt = CSV and install_clicked = False and pip = None]
    not_html_plain
  by simp

subsection \<open>Responses with a status other than 200\<close>

lemma url_except_generic:
  "exn_class_of e \<noteq> HTTPError \<Longrightarrow>
   url_except r e =
     [St_error (ustr ''Failed to fetch/parse URL: '' @ str_of_exn e),
      St_info (ustr (''Ensure the URL points directly to the .laz file (use presigned S3 URL, '' @
                     ''add ?dl=1 for Dropbox, or enable public GET).''))]"
  by (simp add: url_except_def)

text \<open>
  A response with a status other than 200 never reaches the decoder: the run shows the
  status with the reason text and the start of the body, raises \<open>RuntimeError\<close>
  "HTTP <status>", and ends in the handler for \<open>Exception\<close>, whatever the status is.
\<close>

lemma url_response_not_200:
  assumes "status_code r \<noteq> 200"
  shows "url_body read fmt r =
           ([St_error (ustr ''HTTP '' @ str_int (status_code r) @ ustr '': '' @ reason r),
             St_write (take 1000 (r_text r))],
            Some (Exn RuntimeError (ustr ''HTTP '' @ str_int (status_code r))))"
    and "url_response read fmt r =
           [St_error (ustr ''HTTP '' @ str_int (status_code r) @ ustr '': '' @ reason r),
            St_write (take 1000 (r_text r)),
            St_error (ustr ''Failed to fetch/parse URL: '' @ ustr ''HTTP '' @ str_int (status_code r)),
            St_info (ustr (''Ensure the URL points directly to the .laz file (use presigned S3 URL, '' @
                           ''add ?dl=1 for Dropbox, or enable public GET).''))]"
proof -
  show b: "url_body read fmt r =
           ([St_error (ustr ''HTTP '' @ str_int (status_code r) @ ustr '': '' @ reason r),
             St_write (take 1000 (r_text r))],
            Some (Exn RuntimeError (ustr ''HTTP '' @ str_int (status_code r))))"
    using assms by (simp add: url_body_def)
  show "url_response read fmt r =
           [St_error (ustr ''HTTP '' @ str_int (status_code r) @ ustr '': '' @ reason r),
            St_write (take 1000 (r_text r)),
            St_error (ustr ''Failed to fetch/parse URL: '' @ ustr ''HTTP '' @ str_int (status_code r)),
            St_info (ustr (''Ensure the URL points directly to the .laz file (use presigned S3 URL, '' @
                           ''add ?dl=1 for Dropbox, or enable public GET).''))]"
    by (simp add: url_response_def b url_except_generic)
qed

text \<open>
  Claim C5, at a response with status 401 and reason "Unauthorized": the run shows
  "HTTP 401: Unauthorized", the body text, and then the messages of the handler for
  \<open>Exception\<close>. The message "401 Unauthorized: the URL requires credentials or a presigned
  URL." of the handler for \<open>requests.HTTPError\<close> is not shown: the exception raised is a
  \<open>RuntimeError\<close>. The decoder \<open>read\<close> is not consulted.
\<close>

theorem http_401_takes_generic_handler:
  "url_response read fmt
     \<lparr>status_code = 401, reason = ustr ''Unauthorized'', r_text = ustr ''Access denied'',
      r_content = [], content_type = None\<rparr>
   = [St_error (ustr ''HTTP 401: Unauthorized''),
      St_write (ustr ''Access denied''),
      St_error (ustr ''Failed to fetch/parse URL: HTTP 401''),
      St_info (ustr (''Ensure the URL points directly to the .laz file (use presigned S3 URL, '' @
                     ''add ?dl=1 for Dropbox, or enable public GET).''))]"
  apply (simp add: url_response_not_200 str_int_401)
  apply (simp add: ustr_def)
  done

subsection \<open>The guard against web pages\<close>

lemma looks_like_html_iff:
  "looks_like_html r \<longleftrightarrow>
     prefix (blit ''<!do'') (map lower_byte (take 8 (r_content r))) \<or>
     prefix (blit ''<html'') (map lower_byte (take 8 (r_content r))) \<or>
     prefix (blit ''<?xml'') (map lower_byte (take 8 (r_content r))) \<or>
     (\<exists>ct. content_type r = Some ct \<and> contains ''html'' (map lower_char ct))"
  by (cases "content_type r") (simp_all add: looks_like_html_def Let_def)

lemma url_body_html:
  "status_code r = 200 \<Longrightarrow> looks_like_html r \<Longrightarrow>
   url_body read fmt r =
     ([St_error (ustr ''URL returned HTML (likely an error/redirect page) instead of a .laz file.''),
       St_write_decoded (take 500 (r_content r))],
      Some (Exn RuntimeError (ustr ''URL returned HTML'')))"
  by (simp add: url_body_def)

text \<open>
  Claim C6 as stated fails at a response with status 404 whose body starts with
  \<open><html>\<close>: the status is checked first and the run raises "HTTP 404", not
  "URL returned HTML".
\<close>

theorem html_guard_after_status_check:
  "looks_like_html
     \<lparr>status_code = 404, reason = ustr ''Not Found'', r_text = ustr ''<html>'',
      r_content = blit ''<html>'', content_type = None\<rparr>
   \<and> snd (url_body (\<lambda>b. Inl (Exn OtherError [])) CSV
       \<lparr>status_code = 404, reason = ustr ''Not Found'', r_text = ustr ''<html>'',
        r_content = blit ''<html>'', content_type = None\<rparr>)
     = Some (Exn RuntimeError (ustr ''HTTP 404''))
   \<and> Exn RuntimeError (ustr ''HTTP 404'') \<noteq> Exn RuntimeError (ustr ''URL returned HTML'')"
  apply (simp add: url_response_not_200 str_int_404 looks_like_html_def)
  apply (simp add: ustr_def blit_def lower_byte_def)
  done

text \<open>
  Claim C6, amended: for a response with status 200 whose first 8 bytes, lowercased, begin
  with \<open><!do\<close>, \<open><html\<close> or \<open><?xml\<close>, or whose content type contains "html" (in any
  case), the run raises \<open>RuntimeError\<close> "URL returned HTML" after showing the error and a
  preview of the body; the result does not depend on the decoder. For any status, such a
  response ends in an exception without consulting the decoder.
\<close>

theorem html_guard_rejects_before_decode:
  assumes "prefix (blit ''<!do'') (map lower_byte (take 8 (r_content r))) \<or>
           prefix (blit ''<html'') (map lower_byte (take 8 (r_content r))) \<or>
           prefix (blit ''<?xml'') (map lower_byte (take 8 (r_content r))) \<or>
           (\<exists>ct. content_type r = Some ct \<and>
                 (contains ''html'' ct \<or> contains ''html'' (map lower_char ct)))"
  shows "(status_code r = 200 \<longrightarrow>
           url_body read fmt r =
             ([St_error (ustr ''URL returned HTML (likely an error/redirect page) instead of a .laz file.''),
               St_write_decoded (take 500 (r_content r))],
              Some (Exn RuntimeError (ustr ''URL returned HTML''))))
       \<and> url_body read fmt r = url_body read' fmt r
       \<and> snd (url_body read fmt r) \<noteq> None
       \<and> exported (url_response read fmt r) = []"
proof -
  have "contains ''html'' (map lower_char ct)" if "contains ''html'' ct" for ct
    using contains_map [OF that, of lower_char] by (simp only: lower_html)
  with assms have h: "looks_like_html r"
    unfolding looks_like_html_iff by blast
  show ?thesis
  proof (cases "status_code r = 200")
    case True
    then show ?thesis
      using h by (simp add: url_body_html url_response_def url_except_generic)
  next
    case False
    then show ?thesis
      by (simp add: url_response_not_200)
  qed
qed

theorem html_guard_rejects_before_decode_witness:
  "url_body (\<lambda>b. Inr \<lparr>las_x = Array [], las_y = Array [], las_z = Array []\<rparr>) CSV
     \<lparr>status_code = 200, reason = ustr ''OK'', r_text = ustr ''<HTML>'',
      r_content = blit ''<HTML>'', content_type = None\<rparr>
   = ([St_error (ustr ''URL returned HTML (likely an error/redirect page) instead of a .laz file.''),
       St_write_decoded (blit ''<HTML>'')],
      Some (Exn RuntimeError (ustr ''URL returned HTML'')))"
  using html_guard_rejects_before_decode
    [where r = "\<lparr>status_code = 200, reason = ustr ''OK'', r_text = ustr ''<HTML>'',
                  r_content = blit ''<HTML>'', content_type = None\<rparr>"
       and read = "\<lambda>b. Inr \<lparr>las_x = Array [], las_y = Array [], las_z = Array []\<rparr>"
       and fmt = CSV]
  by (simp add: blit_def lower_byte_def)

subsection \<open>Decode failures\<close>

text \<open>
  On the upload path an exception of the decoder is classified by its message: with
  "No LazBackend", "cannot decompress" or "LazBackend" in it the run reports the missing
  backend, shows the hint that names the package \<open>lazrs\<close>, and offers the install button;
  otherwise it shows "Error converting file: " followed by the message.
\<close>

lemma upload_decode_failure:
  assumes "read (up_bytes f) = Inl e"
  shows "upload_path read fmt install_clicked pip (Some f) = upload_except install_clicked pip e"
  using assms by (simp add: upload_path_def upload_try_def)

lemma upload_except_backend:
  assumes "contains (ustr ''No LazBackend'') (str_of_exn e) \<or>
           contains (ustr ''cannot decompress'') (str_of_exn e) \<or>
           contains (ustr ''LazBackend'') (str_of_exn e)"
  shows "take 3 (upload_except install_clicked pip e) =
           [St_error (ustr ''LAZ backend not available '' @ [0x2014] @
                      ustr '' Streamlit can't decompress .laz data.''),
            St_write backend_hint,
            St_button (ustr ''Install lazrs now'')]"
    and "contains (ustr ''pip install lazrs'') backend_hint"
proof -
  show "take 3 (upload_except install_clicked pip e) =
           [St_error (ustr ''LAZ backend not available '' @ [0x2014] @
                      ustr '' Streamlit can't decompress .laz data.''),
            St_write backend_hint,
            St_button (ustr ''Install lazrs now'')]"
    using assms by (simp add: upload_except_def Let_def)
  show "contains (ustr ''pip install lazrs'') backend_hint"
    by (simp add: backend_hint_def ustr_def newline_def)
qed

lemma upload_except_generic:
  assumes "\<not> contains (ustr ''No LazBackend'') (str_of_exn e)"
    and "\<not> contains (ustr ''cannot decompress'') (str_of_exn e)"
    and "\<not> contains (ustr ''LazBackend'') (str_of_exn e)"
  shows "upload_except install_clicked pip e =
           [St_error (ustr ''Error converting file: '' @ str_of_exn e)]"
  using assms by (simp add: upload_except_def Let_def)

lemma url_decode_failure:
  assumes "status_code r = 200" and "\<not> looks_like_html r" and "read (r_content r) = Inl e"
  shows "url_response read fmt r = url_except (Some r) e"
  using assms by (simp add: url_response_def url_body_def)

lemma not_html_lasf:
  "\<not> looks_like_html \<lparr>status_code = 200, reason = ustr ''OK'', r_text = [],
      r_content = blit ''LASF'', content_type = Some ''application/octet-stream''\<rparr>"
  by (simp add: looks_like_html_def blit_def lower_byte_def lower_char_def)

text \<open>
  Claim C7, at a URL fetch with status 200 whose bytes the decoder rejects with
  "No LazBackend selected, cannot decompress data": the message contains the backend
  phrases, yet the run shows the generic "Failed to fetch/parse URL" messages. The
  report of a missing backend and the hint to install \<open>lazrs\<close> exist on the upload path
  only, which shows them for the same exception.
\<close>

theorem url_decode_failure_not_classified:
  "url_response (\<lambda>b. Inl (Exn OtherError (ustr ''No LazBackend selected, cannot decompress data''))) fmt
     \<lparr>status_code = 200, reason = ustr ''OK'', r_text = [],
      r_content = blit ''LASF'', content_type = Some ''application/octet-stream''\<rparr>
   = [St_error (ustr ''Failed to fetch/parse URL: No LazBackend selected, cannot decompress data''),
      St_info (ustr (''Ensure the URL points directly to the .laz file (use presigned S3 URL, '' @
                     ''add ?dl=1 for Dropbox, or enable public GET).''))]
   \<and> upload_path (\<lambda>b. Inl (Exn OtherError (ustr ''No LazBackend selected, cannot decompress data'')))
       fmt False None (Some \<lparr>up_name = ustr ''a.laz'', up_bytes = blit ''LASF''\<rparr>)
   = [St_error (ustr ''LAZ backend not available '' @ [0x2014] @
                ustr '' Streamlit can't decompress .laz data.''),
      St_write backend_hint,
      St_button (ustr ''Install lazrs now'')]"
proof -
  have c: "contains (ustr ''No LazBackend'') (ustr ''No LazBackend selected, cannot decompress data'')"
    by (simp add: ustr_def)
  have "url_response (\<lambda>b. Inl (Exn OtherError (ustr ''No LazBackend selected, cannot decompress data''))) fmt
     \<lparr>status_code = 200, reason = ustr ''OK'', r_text = [],
      r_content = blit ''LASF'', content_type = Some ''application/octet-stream''\<rparr>
   = [St_error (ustr ''Failed to fetch/parse URL: No LazBackend selected, cannot decompress data''),
      St_info (ustr (''Ensure the URL points directly to the .laz file (use presigned S3 URL, '' @
                     ''add ?dl=1 for Dropbox, or enable public GET).''))]"
    by (simp add: url_decode_failure not_html_lasf url_except_generic ustr_append)
  moreover have "upload_path (\<lambda>b. Inl (Exn OtherError (ustr ''No LazBackend selected, cannot decompress data'')))
       fmt False None (Some \<lparr>up_name = ustr ''a.laz'', up_bytes = blit ''LASF''\<rparr>)
   = [St_error (ustr ''LAZ backend not available '' @ [0x2014] @
                ustr '' Streamlit can't decompress .laz data.''),
      St_write backend_hint,
      St_button (ustr ''Install lazrs now'')]"
    by (simp add: upload_decode_failure upload_except_def c)
  ultimately show ?thesis by simp
qed

subsection \<open>The two paths export the same\<close>

lemma exported_upload_except: "exported (upload_except install_clicked pip e) = []"
  by (simp add: upload_except_def Let_def split: option.splits)

lemma exported_url_except: "exported (url_except r e) = []"
  by (simp add: url_except_def split: option.splits)

lemma exported_append: "exported (a @ b) = exported a @ exported b"
  by (induction a rule: exported.induct) simp_all

lemma exported_upload_path:
  "exported (upload_path read fmt install_clicked pip (Some f)) = exported (fst (upload_try read fmt f))"
  by (cases "upload_try read fmt f")
    (auto simp: upload_path_def exported_append exported_upload_except split: option.splits)

lemma exported_url_response:
  "exported (url_response read fmt r) = exported (fst (url_body read fmt r))"
  by (cases "url_body read fmt r")
    (auto simp: url_response_def exported_append exported_url_except split: option.splits)

lemma same_pipeline:
  assumes "status_code r = 200" and "\<not> looks_like_html r" and "r_content r = up_bytes f"
  shows "exported (fst (upload_try read fmt f)) = exported (fst (url_body read fmt r))"
    and "snd (upload_try read fmt f) = snd (url_body read fmt r)"
  using assms
  by (auto simp: upload_try_def url_body_def Let_def split: sum.splits output_format.splits)

lemma url_body_rejected:
  "status_code r \<noteq> 200 \<or> looks_like_html r \<Longrightarrow> exported (fst (url_body read fmt r)) = []"
  by (auto simp: url_body_def)

text \<open>
  Claim C10: for a response that passes the status and content guards and an uploaded
  file with the same bytes, the two runs offer the same data with the same MIME type for
  download under the same output format, and the bodies of the two \<open>try\<close> blocks end in
  the same exception or in none. The file names are
  \<open>uploaded_file.name.replace(".laz", ...)\<close> on one path and \<open>downloaded_file.csv\<close> or
  \<open>downloaded_file.xyz\<close> on the other. Whatever the guards decide, a URL run that offers
  a download offers what the upload run offers for the same bytes.
\<close>

theorem upload_and_url_export_the_same:
  assumes "r_content r = up_bytes f"
  shows "(status_code r = 200 \<and> \<not> looks_like_html r \<longrightarrow>
            exported (upload_path read fmt install_clicked pip (Some f)) =
              exported (url_response read fmt r)
          \<and> snd (upload_try read fmt f) = snd (url_body read fmt r))
       \<and> (exported (url_response read fmt r) = [] \<or>
          exported (url_response read fmt r) =
            exported (upload_path read fmt install_clicked pip (Some f)))"
proof (cases "status_code r = 200 \<and> \<not> looks_like_html r")
  case True
  then show ?thesis
    using assms same_pipeline [of r f read fmt]
    by (simp add: exported_upload_path exported_url_response)
next
  case False
  then have "exported (url_response read fmt r) = []"
    using url_body_rejected [of r read fmt] by (auto simp: exported_url_response)
  with False show ?thesis by auto
qed

theorem upload_and_url_export_the_same_witness:
  "exported (upload_path (\<lambda>b. Inr \<lparr>las_x = Array [], las_y = Array [], las_z = Array []\<rparr>) CSV
      False None (Some \<lparr>up_name = ustr ''a.laz'', up_bytes = []\<rparr>))
   = exported (url_response (\<lambda>b. Inr \<lparr>las_x = Array [], las_y = Array [], las_z = Array []\<rparr>) CSV
      \<lparr>status_code = 200, reason = ustr ''OK'', r_text = [], r_content = [], content_type = None\<rparr>)
   \<and> exported (url_response (\<lambda>b. Inr \<lparr>las_x = Array [], las_y = Array [], las_z = Array []\<rparr>) CSV
      \<lparr>status_code = 200, reason = ustr ''OK'', r_text = [], r_content = [], content_type = None\<rparr>)
   = [(blit ''X,Y,Z'' @ [0x0A], ustr ''text/csv'')]"
proof -
  have nh: "\<not> looks_like_html \<lparr>status_code = 200, reason = ustr ''OK'', r_text = [],
      r_content = [], content_type = None\<rparr>"
    by (rule not_html_plain)
  have e: "exported (url_response (\<lambda>b. Inr \<lparr>las_x = Array [], las_y = Array [], las_z = Array []\<rparr>) CSV
      \<lparr>status_code = 200, reason = ustr ''OK'', r_text = [], r_content = [], content_type = None\<rparr>)
   = [(blit ''X,Y,Z'' @ [0x0A], ustr ''text/csv'')]"
    by (simp add: exported_url_response url_body_empty_csv nh)
  have "exported (upload_path (\<lambda>b. Inr \<lparr>las_x = Array [], las_y = Array [], las_z = Array []\<rparr>) CSV
      False None (Some \<lparr>up_name = ustr ''a.laz'', up_bytes = []\<rparr>))
   = exported (url_response (\<lambda>b. Inr \<lparr>las_x = Array [], las_y = Array [], las_z = Array []\<rparr>) CSV
      \<lparr>status_code = 200, reason = ustr ''OK'', r_text = [], r_content = [], content_type = None\<rparr>)"
    using upload_and_url_export_the_same
      [where r = "\<lparr>status_code = 200, reason = ustr ''OK'', r_text = [], r_content = [],
                    content_type = None\<rparr>"
         and f = "\<lparr>up_name = ustr ''a.laz'', up_bytes = []\<rparr>"
         and read = "\<lambda>b. Inr \<lparr>las_x = Array [], las_y = Array [], las_z = Array []\<rparr>"
         and fmt = CSV and install_clicked = False and pip = None]
      nh
    by simp
  then show ?thesis
    using e by (rule conjI)
qed

subsection \<open>Digits and lines\<close>

lemma split_on_not_Nil: "split_on c s \<noteq> []"
  by (induction s) auto

lemma split_on_no_sep: "c \<notin> set p \<Longrightarrow> split_on c p = [p]"
  by (induction p) auto

lemma split_on_append: "c \<notin> set p \<Longrightarrow> split_on c (p @ c # rest) = p # split_on c rest"
  by (induction p) auto

lemma split_on_join:
  "parts \<noteq> [] \<Longrightarrow> \<forall>p \<in> set parts. c \<notin> set p \<Longrightarrow> split_on c (join [c] parts) = parts"
proof (induction "[c]" parts rule: join.induct)
  case 1
  then show ?case by simp
next
  case (2 p)
  then show ?case by (simp add: split_on_no_sep)
next
  case (3 p q ps)
  then show ?case by (simp add: split_on_append)
qed

lemma is_digit_digit: "d < 10 \<Longrightarrow> is_digit (digit d)"
  by (simp add: is_digit_def digit_def)

lemma str_nat_digits: "list_all is_digit (str_nat n)"
proof (induction n rule: str_nat.induct)
  case (1 n)
  show ?case
  proof (cases "n < 10")
    case True
    then show ?thesis by (subst str_nat.simps) (simp add: is_digit_digit)
  next
    case False
    with 1 show ?thesis by (subst str_nat.simps) (simp add: is_digit_digit)
  qed
qed

lemma str_nat_not_Nil: "str_nat n \<noteq> []"
  by (subst str_nat.simps) simp

lemma fixed3_shape:
  "\<exists>sg ip fp. fixed3 s n = sg @ ip @ ustr ''.'' @ fp \<and> (sg = [] \<or> sg = ustr ''-'') \<and>
     ip \<noteq> [] \<and> list_all is_digit ip \<and> length fp = 3 \<and> list_all is_digit fp"
proof -
  let ?fp = "[digit (n mod 1000 div 100), digit (n mod 100 div 10), digit (n mod 10)]"
  have "fixed3 s n = (if s then ustr ''-'' else []) @ str_nat (n div 1000) @ ustr ''.'' @ ?fp"
    by (simp add: fixed3_def)
  moreover have "list_all is_digit ?fp"
    by (simp add: is_digit_digit)
  moreover have "length ?fp = 3" by simp
  ultimately show ?thesis
    using str_nat_digits [of "n div 1000"] str_nat_not_Nil [of "n div 1000"]
    by (intro exI [of _ "if s then ustr ''-'' else []"] exI [of _ "str_nat (n div 1000)"]
        exI [of _ ?fp]) auto
qed

lemma fixed3_chars: "c \<in> set (fixed3 s n) \<Longrightarrow> c = 45 \<or> c = 46 \<or> is_digit c"
  using str_nat_digits [of "n div 1000"]
  by (auto simp: fixed3_def ustr_def list_all_iff is_digit_digit split: if_splits)

lemma format_3f_finite:
  "isfinite v \<Longrightarrow> \<exists>s n. format_3f v = fixed3 s n"
  by (auto simp: isfinite_def format_3f_def split: fpclass.splits)

lemma format_3f_chars:
  assumes "isfinite v" and "c \<in> set (format_3f v)"
  shows "c = 45 \<or> c = 46 \<or> is_digit c"
  using assms format_3f_finite [of v] fixed3_chars by metis

lemma format_3f_no_sep:
  assumes "isfinite v"
  shows "10 \<notin> set (format_3f v)" and "32 \<notin> set (format_3f v)"
    and "list_all (\<lambda>c. c < 128) (format_3f v)"
proof -
  show "10 \<notin> set (format_3f v)"
    using format_3f_chars [OF assms, of 10] by (auto simp: is_digit_def)
  show "32 \<notin> set (format_3f v)"
    using format_3f_chars [OF assms, of 32] by (auto simp: is_digit_def)
  show "list_all (\<lambda>c. c < 128) (format_3f v)"
    unfolding list_all_iff
  proof
    fix c assume "c \<in> set (format_3f v)"
    then show "c < 128"
      using format_3f_chars [OF assms, of c] by (auto simp: is_digit_def)
  qed
qed

subsection \<open>The XYZ export\<close>

lemma xyz_line_fields:
  assumes "isfinite a" and "isfinite b" and "isfinite c"
  shows "split_on 32 (xyz_line (a, b, c)) = [format_3f a, format_3f b, format_3f c]"
proof -
  have "xyz_line (a, b, c) = format_3f a @ 32 # (format_3f b @ 32 # format_3f c)"
    by (simp add: xyz_line_def ustr_def)
  then show ?thesis
    using format_3f_no_sep(2) [OF assms(1)] format_3f_no_sep(2) [OF assms(2)]
      format_3f_no_sep(2) [OF assms(3)]
    by (simp add: split_on_append split_on_no_sep)
qed

lemma xyz_line_no_newline:
  assumes "isfinite a" and "isfinite b" and "isfinite c"
  shows "10 \<notin> set (xyz_line (a, b, c))"
  using format_3f_no_sep(1) [OF assms(1)] format_3f_no_sep(1) [OF assms(2)]
    format_3f_no_sep(1) [OF assms(3)]
  by (simp add: xyz_line_def ustr_def)

lemma xyz_line_ascii:
  assumes "isfinite a" and "isfinite b" and "isfinite c"
  shows "list_all (\<lambda>c. c < 128) (xyz_line (a, b, c))"
  using format_3f_no_sep(3) [OF assms(1)] format_3f_no_sep(3) [OF assms(2)]
    format_3f_no_sep(3) [OF assms(3)]
  by (simp add: xyz_line_def ustr_def)

lemma join_ascii:
  "list_all (\<lambda>c. c < (128::nat)) sep \<Longrightarrow> \<forall>p \<in> set parts. list_all (\<lambda>c. c < 128) p \<Longrightarrow>
   list_all (\<lambda>c. c < 128) (join sep parts)"
  by (induction sep parts rule: join.induct) simp_all

lemma finite_rows:
  assumes "list_all isfinite (x @ y @ z)"
  shows "list_all finite_row (zip x (zip y z))"
  unfolding list_all_iff
proof
  fix r assume r: "r \<in> set (zip x (zip y z))"
  obtain a b c where abc: "r = (a, b, c)" by (cases r) auto
  from r abc have "a \<in> set x" "(b, c) \<in> set (zip y z)"
    by (auto dest: set_zip_leftD set_zip_rightD)
  then have "a \<in> set x" "b \<in> set y" "c \<in> set z"
    by (auto dest: set_zip_leftD set_zip_rightD)
  with assms show "finite_row r"
    by (simp add: abc finite_row_def list_all_iff)
qed

lemma xyz_str_lines:
  assumes "xyz \<noteq> []" and "list_all finite_row xyz"
  shows "split_on 10 (xyz_str xyz) = map xyz_line xyz"
proof -
  have "\<forall>p \<in> set (map xyz_line xyz). 10 \<notin> set p"
    using assms(2) xyz_line_no_newline
    by (auto simp: list_all_iff finite_row_def)
  moreover have "map xyz_line xyz \<noteq> []"
    using assms(1) by simp
  ultimately show ?thesis
    unfolding xyz_str_def newline_def by (rule split_on_join [rotated])
qed

lemma xyz_str_ascii:
  assumes "list_all finite_row xyz"
  shows "list_all (\<lambda>c. c < 128) (xyz_str xyz)"
proof -
  have "\<forall>p \<in> set (map xyz_line xyz). list_all (\<lambda>c. c < 128) p"
    using assms xyz_line_ascii by (auto simp: list_all_iff finite_row_def)
  then show ?thesis
    unfolding xyz_str_def by (intro join_ascii) (simp_all add: newline_def)
qed

lemma xyz_fields:
  assumes "list_all finite_row xyz"
  shows "map (split_on 32) (map xyz_line xyz) =
         map (\<lambda>(a, b, c). [format_3f a, format_3f b, format_3f c]) xyz"
  using assms by (induction xyz) (auto simp: finite_row_def xyz_line_fields)

lemma digits_value_snoc: "digits_value (ds @ [c]) = 10 * digits_value ds + (c - 48)"
  by (simp add: digits_value_def)

lemma digits_value_str_nat: "digits_value (str_nat n) = n"
proof (induction n rule: str_nat.induct)
  case (1 n)
  show ?case
  proof (cases "n < 10")
    case True
    then show ?thesis
      by (subst str_nat.simps) (simp add: digits_value_def digit_def)
  next
    case False
    with 1 have "digits_value (str_nat (n div 10)) = n div 10" by simp
    with False show ?thesis
      by (subst str_nat.simps) (simp add: digits_value_snoc digit_def)
  qed
qed

lemma digits_value_3:
  assumes "n < 1000"
  shows "digits_value [digit (n div 100), digit (n mod 100 div 10), digit (n mod 10)] = n"
proof -
  define h where "h = n div 100"
  define t where "t = n mod 100 div 10"
  define u where "u = n mod 10"
  define w where "w = n mod 100"
  have a: "n = 100 * h + w"
    by (simp add: h_def w_def)
  have "10 * (n mod 100 div 10) + n mod 100 mod 10 = n mod 100"
    by (rule mult_div_mod_eq)
  moreover have "n mod 100 mod 10 = n mod 10"
    by (simp add: mod_mod_cancel)
  ultimately have "10 * (n mod 100 div 10) + n mod 10 = n mod 100"
    by (simp only:)
  then have b: "w = 10 * t + u"
    by (simp only: t_def u_def w_def)
  have "10 * (10 * h + t) + u = n"
    using a b by simp
  then show ?thesis
    by (simp add: digits_value_def digit_def h_def t_def u_def)
qed

lemma fixed3_value:
  "\<exists>ip fp. fixed3 s n = (if s then ustr ''-'' else []) @ ip @ ustr ''.'' @ fp \<and>
     ip \<noteq> [] \<and> list_all is_digit ip \<and> length fp = 3 \<and> list_all is_digit fp \<and>
     1000 * digits_value ip + digits_value fp = n"
proof -
  let ?fp = "[digit (n mod 1000 div 100), digit (n mod 100 div 10), digit (n mod 10)]"
  have a: "fixed3 s n = (if s then ustr ''-'' else []) @ str_nat (n div 1000) @ ustr ''.'' @ ?fp"
    by (simp add: fixed3_def)
  have b: "list_all is_digit ?fp"
    by (simp add: is_digit_digit)
  have "digits_value ?fp = n mod 1000"
    using digits_value_3 [of "n mod 1000"] by (simp add: mod_mod_cancel)
  then have c: "1000 * digits_value (str_nat (n div 1000)) + digits_value ?fp = n"
    by (simp add: digits_value_str_nat)
  show ?thesis
    using a b c str_nat_digits [of "n div 1000"] str_nat_not_Nil [of "n div 1000"]
    by (intro exI [of _ "str_nat (n div 1000)"] exI [of _ ?fp]) simp
qed

text \<open>
  \<open>round_half_even num den\<close> is within one half of \<open>num / den\<close>, so \<open>thousandths m e\<close> is
  a nearest integer to \<open>1000 * m * 2^e\<close>: the printed number is the coordinate rounded to
  three decimals.
\<close>

lemma round_half_even_nearest:
  assumes "0 < den"
  shows "2 * round_half_even num den * den \<le> 2 * num + den"
    and "2 * num \<le> 2 * round_half_even num den * den + den"
proof -
  define q where "q = num div den"
  define r where "r = num mod den"
  define R where "R = round_half_even num den"
  have n: "num = q * den + r" and r: "r < den"
    using assms by (simp_all add: q_def r_def)
  have "R = (if 2 * r < den then q else if den < 2 * r then q + 1
             else if even q then q else q + 1)"
    by (simp add: R_def round_half_even_def q_def r_def Let_def)
  then have cases: "(R = q \<and> 2 * r \<le> den) \<or> (R = q + 1 \<and> den \<le> 2 * r)"
    by (auto split: if_splits)
  have "2 * R * den \<le> 2 * (q * den + r) + den"
    using cases r by (auto simp: algebra_simps)
  then show "2 * round_half_even num den * den \<le> 2 * num + den"
    unfolding R_def using n by simp
  have "2 * (q * den + r) \<le> 2 * R * den + den"
    using cases r by (auto simp: algebra_simps)
  then show "2 * num \<le> 2 * round_half_even num den * den + den"
    unfolding R_def using n by simp
qed

lemma thousandths_nearest:
  assumes "e < 0"
  shows "2 * thousandths m e * 2 ^ nat (- e) \<le> 2 * (m * 1000) + 2 ^ nat (- e)"
    and "2 * (m * 1000) \<le> 2 * thousandths m e * 2 ^ nat (- e) + 2 ^ nat (- e)"
proof -
  have t: "thousandths m e = round_half_even (m * 1000) (2 ^ nat (- e))"
    using assms by (simp add: thousandths_def)
  have pos: "(0::nat) < 2 ^ nat (- e)"
    by simp
  show "2 * thousandths m e * 2 ^ nat (- e) \<le> 2 * (m * 1000) + 2 ^ nat (- e)"
    unfolding t by (rule round_half_even_nearest(1) [OF pos])
  show "2 * (m * 1000) \<le> 2 * thousandths m e * 2 ^ nat (- e) + 2 ^ nat (- e)"
    unfolding t by (rule round_half_even_nearest(2) [OF pos])
qed

lemma thousandths_exact: "0 \<le> e \<Longrightarrow> thousandths m e = m * 2 ^ nat e * 1000"
  by (simp add: thousandths_def)

lemma upload_try_xyz:
  assumes "read (up_bytes f) = Inr las"
    and "length (atleast_1d (las_x las)) = length (atleast_1d (las_y las))"
    and "length (atleast_1d (las_y las)) = length (atleast_1d (las_z las))"
    and "encode_utf8 (xyz_str (zip (atleast_1d (las_x las))
           (zip (atleast_1d (las_y las)) (atleast_1d (las_z las))))) = Inr xyz_bytes"
  shows "upload_try read XYZ f =
     ([St_success (ustr ''Loaded '' @ format_thousands (length (atleast_1d (las_x las))) @
                   ustr '' points successfully '' @ [0x2705]),
       St_download_button ([0x1F4E5] @ ustr '' Download XYZ file'') xyz_bytes
         (str_replace (ustr ''.laz'') (ustr ''.xyz'') (up_name f)) (ustr ''text/plain'')], None)"
  using assms by (simp add: upload_try_def column_stack_def Let_def)

text \<open>
  Claim C1 as stated fails at a point cloud of one point whose coordinates are NaN: the
  line is \<open>nan nan nan\<close>, and a formatted coordinate has no decimal point at all.
\<close>

theorem xyz_export_nan_line:
  "column_stack [0x7FF8000000000000] [0x7FF8000000000000] [0x7FF8000000000000]
     = Inr [(0x7FF8000000000000, 0x7FF8000000000000, 0x7FF8000000000000)]
   \<and> xyz_str [(0x7FF8000000000000, 0x7FF8000000000000, 0x7FF8000000000000)] = ustr ''nan nan nan''
   \<and> 46 \<notin> set (format_3f 0x7FF8000000000000)"
  by (simp add: column_stack_def xyz_str_def xyz_line_def format_3f_def decode_f64_def ustr_def)

text \<open>
  Claim C1, amended: for every point cloud with N >= 1 points whose coordinates are all
  finite, the XYZ text has exactly N lines (split at the newline), line \<open>i\<close> split at
  the space is the three formatted coordinates of point \<open>i\<close>, and every formatted
  coordinate is a minus sign if the sign bit is set, at least one digit, a decimal point
  and exactly three digits, which together denote \<open>thousandths m e\<close>, the value
  \<open>m * 2^e\<close> of the coordinate in thousandths rounded to the nearest integer. The text is
  ASCII, so its UTF-8 encoding is its code points as bytes, and the upload path offers
  exactly these bytes as \<open>text/plain\<close>.
\<close>

theorem xyz_export_finite_points:
  assumes "length x = length y" and "length y = length z" and "x \<noteq> []"
    and "list_all isfinite (x @ y @ z)"
  shows "column_stack x y z = Inr (zip x (zip y z))
       \<and> length (split_on 10 (xyz_str (zip x (zip y z)))) = length x
       \<and> map (split_on 32) (split_on 10 (xyz_str (zip x (zip y z)))) =
           map (\<lambda>(a, b, c). [format_3f a, format_3f b, format_3f c]) (zip x (zip y z))
       \<and> (\<forall>v \<in> set (x @ y @ z). \<exists>s m e ip fp.
            decode_f64 v = Finite s m e \<and>
            format_3f v = (if s then ustr ''-'' else []) @ ip @ ustr ''.'' @ fp \<and>
            ip \<noteq> [] \<and> list_all is_digit ip \<and> length fp = 3 \<and> list_all is_digit fp \<and>
            1000 * digits_value ip + digits_value fp = thousandths m e)
       \<and> encode_utf8 (xyz_str (zip x (zip y z))) = Inr (map of_nat (xyz_str (zip x (zip y z))))
       \<and> (read (up_bytes f) = Inr las \<and> atleast_1d (las_x las) = x \<and>
          atleast_1d (las_y las) = y \<and> atleast_1d (las_z las) = z \<longrightarrow>
            exported (fst (upload_try read XYZ f)) =
              [(map of_nat (xyz_str (zip x (zip y z))), ustr ''text/plain'')]
            \<and> snd (upload_try read XYZ f) = None)"
proof -
  let ?xyz = "zip x (zip y z)"
  have rows: "list_all finite_row ?xyz"
    using assms(4) by (rule finite_rows)
  have ne: "?xyz \<noteq> []"
    using assms(1-3) by (cases x; cases y; cases z) auto
  have len: "length ?xyz = length x"
    using assms(1,2) by simp
  have lines: "split_on 10 (xyz_str ?xyz) = map xyz_line ?xyz"
    using ne rows by (rule xyz_str_lines)
  have c1: "column_stack x y z = Inr ?xyz"
    using assms(1,2) by (simp add: column_stack_def)
  have c2: "length (split_on 10 (xyz_str ?xyz)) = length x"
    by (simp only: lines length_map len)
  have c3: "map (split_on 32) (split_on 10 (xyz_str ?xyz)) =
      map (\<lambda>(a, b, c). [format_3f a, format_3f b, format_3f c]) ?xyz"
    by (simp only: lines xyz_fields [OF rows])
  have c4: "\<forall>v \<in> set (x @ y @ z). \<exists>s m e ip fp.
      decode_f64 v = Finite s m e \<and>
      format_3f v = (if s then ustr ''-'' else []) @ ip @ ustr ''.'' @ fp \<and>
      ip \<noteq> [] \<and> list_all is_digit ip \<and> length fp = 3 \<and> list_all is_digit fp \<and>
      1000 * digits_value ip + digits_value fp = thousandths m e"
  proof
    fix v assume "v \<in> set (x @ y @ z)"
    with assms(4) have "isfinite v"
      by (simp add: list_all_iff)
    then obtain s m e where d: "decode_f64 v = Finite s m e"
      by (auto simp: isfinite_def split: fpclass.splits)
    then have "format_3f v = fixed3 s (thousandths m e)"
      by (simp add: format_3f_def)
    with d show "\<exists>s m e ip fp.
      decode_f64 v = Finite s m e \<and>
      format_3f v = (if s then ustr ''-'' else []) @ ip @ ustr ''.'' @ fp \<and>
      ip \<noteq> [] \<and> list_all is_digit ip \<and> length fp = 3 \<and> list_all is_digit fp \<and>
      1000 * digits_value ip + digits_value fp = thousandths m e"
      using fixed3_value [of s "thousandths m e"] by auto
  qed
  have c5: "encode_utf8 (xyz_str ?xyz) = Inr (map of_nat (xyz_str ?xyz))"
    using xyz_str_ascii [OF rows] by (rule encode_utf8_ascii)
  have c6: "exported (fst (upload_try read XYZ f)) = [(map of_nat (xyz_str ?xyz), ustr ''text/plain'')]
        \<and> snd (upload_try read XYZ f) = None"
    if "read (up_bytes f) = Inr las" "atleast_1d (las_x las) = x"
      "atleast_1d (las_y las) = y" "atleast_1d (las_z las) = z"
    using that assms(1,2) c5 by (simp add: upload_try_xyz)
  show ?thesis
    using c1 c2 c3 c4 c5 c6 by blast
qed

lemma decode_f64_examples:
  "decode_f64 0x3FF0000000000000 = Finite False (2 ^ 52) (- 52)"
  "decode_f64 0x4004000000000000 = Finite False 0x14000000000000 (- 51)"
  "decode_f64 0xBFC0000000000000 = Finite True (2 ^ 52) (- 55)"
  by (simp_all add: decode_f64_def)

lemma format_3f_examples:
  "format_3f 0x3FF0000000000000 = ustr ''1.000''"
  "format_3f 0x4004000000000000 = ustr ''2.500''"
  "format_3f 0xBFC0000000000000 = ustr ''-0.125''"
  by (simp_all add: format_3f_def decode_f64_examples thousandths_def round_half_even_def
      fixed3_def str_nat.simps digit_def ustr_def)

lemma isfinite_examples:
  "isfinite 0x3FF0000000000000" "isfinite 0x4004000000000000" "isfinite 0xBFC0000000000000"
  by (simp_all add: isfinite_def decode_f64_examples)

theorem xyz_export_finite_points_witness:
  "map (split_on 32)
     (split_on 10 (xyz_str (zip [0x3FF0000000000000] (zip [0x4004000000000000] [0xBFC0000000000000]))))
   = [[ustr ''1.000'', ustr ''2.500'', ustr ''-0.125'']]"
  using xyz_export_finite_points
    [where x = "[0x3FF0000000000000]" and y = "[0x4004000000000000]" and z = "[0xBFC0000000000000]"]
  by (simp add: format_3f_examples isfinite_examples)

subsection \<open>A single point\<close>

lemma decode_f64_single_point:
  "decode_f64 0x4029000000000000 = Finite False 0x19000000000000 (- 49)"
  "decode_f64 0x401D000000000000 = Finite False 0x1D000000000000 (- 50)"
  "decode_f64 0 = Finite False 0 (- 1074)"
  by (simp_all add: decode_f64_def)

lemma dec_exp_single_point:
  "dec_exp 0x19000000000000 (- 49) = 2"
  "dec_exp 0x1D000000000000 (- 50) = 1"
  by (simp_all add: dec_exp_def str_nat.simps)

lemma shortest_12_5: "shortest_from 0x19000000000000 (- 49) 2 (Suc 0) = (125, 3)"
  apply (subst shortest_from.simps)
  apply (simp add: bin_scale_def dec_scale_def reads_back_def Let_def)
  apply (subst shortest_from.simps)
  apply (simp add: bin_scale_def dec_scale_def reads_back_def Let_def)
  apply (subst shortest_from.simps)
  apply (simp add: bin_scale_def dec_scale_def reads_back_def Let_def)
  done

lemma shortest_7_25: "shortest_from 0x1D000000000000 (- 50) 1 (Suc 0) = (725, 3)"
  apply (subst shortest_from.simps)
  apply (simp add: bin_scale_def dec_scale_def reads_back_def Let_def)
  apply (subst shortest_from.simps)
  apply (simp add: bin_scale_def dec_scale_def reads_back_def Let_def)
  apply (subst shortest_from.simps)
  apply (simp add: bin_scale_def dec_scale_def reads_back_def Let_def)
  done

lemma str_nat_125_725: "str_nat 125 = [49, 50, 53]" "str_nat 725 = [55, 50, 53]"
  by (simp_all add: str_nat.simps digit_def)

text \<open>The text of 12.5, 7.25 and 0.0 in a CSV field.\<close>

lemma csv_field_single_point:
  "csv_field 0x4029000000000000 = ustr ''12.5''"
  "csv_field 0x401D000000000000 = ustr ''7.25''"
  "csv_field 0 = ustr ''0.0''"
  by (simp_all add: csv_field_def isna_def float_str_def decode_f64_single_point
      dec_exp_single_point shortest_12_5 shortest_7_25 str_nat_125_725 Let_def rstrip0_def
      repr_digits_def ustr_def)

lemma to_csv_single_point:
  "DataFrame [0x4029000000000000] [0x401D000000000000] [0] = Inr df \<Longrightarrow>
   to_csv df = ustr ''X,Y,Z'' @ newline @ ustr ''12.5,7.25,0.0'' @ newline"
  by (auto simp: DataFrame_def to_csv_def csv_field_single_point) (simp add: ustr_def)

lemma csv_bytes_single_point:
  "encode_utf8 (ustr ''X,Y,Z'' @ newline @ ustr ''12.5,7.25,0.0'' @ newline)
   = Inr (blit ''X,Y,Z'' @ [0x0A] @ blit ''12.5,7.25,0.0'' @ [0x0A])"
  by (simp add: ustr_def newline_def blit_def utf8_char_def)

lemma format_thousands_1: "format_thousands (Suc 0) = ustr ''1''"
  by (simp add: format_thousands_def str_nat.simps group3.simps digit_def ustr_def)

lemma upload_try_single_point:
  assumes "read (up_bytes f) = Inr las"
    and "atleast_1d (las_x las) = [0x4029000000000000]"
    and "atleast_1d (las_y las) = [0x401D000000000000]"
    and "atleast_1d (las_z las) = [0]"
  shows "upload_try read CSV f =
     ([St_success (ustr ''Loaded 1 points successfully '' @ [0x2705]),
       St_download_button ([0x1F4E5] @ ustr '' Download CSV file'')
         (blit ''X,Y,Z'' @ [0x0A] @ blit ''12.5,7.25,0.0'' @ [0x0A])
         (str_replace (ustr ''.laz'') (ustr ''.csv'') (up_name f)) (ustr ''text/csv'')], None)"
proof -
  obtain df where df: "DataFrame [0x4029000000000000] [0x401D000000000000] [0] = Inr df"
    by (simp add: DataFrame_def)
  show ?thesis
    using assms df to_csv_single_point [OF df]
    apply (simp add: upload_try_def csv_bytes_single_point format_thousands_1)
    apply (simp add: ustr_def)
    done
qed

text \<open>
  Claim C3 as stated fails at the single point x = 12.5, y = 7.25, z = 0.0 handed back as
  bare scalars: the lines of the CSV download are \<open>X,Y,Z\<close> and \<open>12.5,7.25,0.0\<close>, and the
  data row is not \<open>12.500,7.250,0.000\<close>.
\<close>

theorem single_point_csv_row_not_three_decimals:
  "exported (fst (upload_try
      (\<lambda>b. Inr \<lparr>las_x = Scalar 0x4029000000000000, las_y = Scalar 0x401D000000000000,
                 las_z = Scalar 0\<rparr>)
      CSV \<lparr>up_name = ustr ''one.laz'', up_bytes = []\<rparr>))
   = [(blit ''X,Y,Z'' @ [0x0A] @ blit ''12.5,7.25,0.0'' @ [0x0A], ustr ''text/csv'')]
   \<and> blit ''12.5,7.25,0.0'' \<noteq> blit ''12.500,7.250,0.000''"
  by (simp add: upload_try_single_point) (simp add: blit_def)

text \<open>
  Claim C3, amended: a coordinate that the decoder hands back as a bare scalar becomes a
  one-dimensional array of length 1, the same as for a one-element array; and for the
  single point x = 12.5, y = 7.25, z = 0.0, in either form, the CSV download is the header
  line followed by the data row \<open>12.5,7.25,0.0\<close>, each value in its shortest text.
\<close>

theorem single_point_csv:
  "length (atleast_1d (Scalar v)) = 1
   \<and> atleast_1d (Scalar v) = atleast_1d (Array [v])
   \<and> (read (up_bytes f) = Inr las \<and>
       (las_x las = Scalar 0x4029000000000000 \<or> las_x las = Array [0x4029000000000000]) \<and>
       (las_y las = Scalar 0x401D000000000000 \<or> las_y las = Array [0x401D000000000000]) \<and>
       (las_z las = Scalar 0 \<or> las_z las = Array [0]) \<longrightarrow>
         exported (fst (upload_try read CSV f))
           = [(blit ''X,Y,Z'' @ [0x0A] @ blit ''12.5,7.25,0.0'' @ [0x0A], ustr ''text/csv'')]
         \<and> snd (upload_try read CSV f) = None)"
proof -
  have "exported (fst (upload_try read CSV f))
           = [(blit ''X,Y,Z'' @ [0x0A] @ blit ''12.5,7.25,0.0'' @ [0x0A], ustr ''text/csv'')]
         \<and> snd (upload_try read CSV f) = None"
    if r: "read (up_bytes f) = Inr las"
      and x: "las_x las = Scalar 0x4029000000000000 \<or> las_x las = Array [0x4029000000000000]"
      and y: "las_y las = Scalar 0x401D000000000000 \<or> las_y las = Array [0x401D000000000000]"
      and z: "las_z las = Scalar 0 \<or> las_z las = Array [0]"
  proof -
    from x have x1: "atleast_1d (las_x las) = [0x4029000000000000]" by auto
    from y have y1: "atleast_1d (las_y las) = [0x401D000000000000]" by auto
    from z have z1: "atleast_1d (las_z las) = [0]" by auto
    show ?thesis
      by (simp add: upload_try_single_point [where read = read and f = f and las = las, OF r x1 y1 z1])
  qed
  then show ?thesis by simp
qed

theorem single_point_csv_witness:
  "exported (fst (upload_try
      (\<lambda>b. Inr \<lparr>las_x = Array [0x4029000000000000], las_y = Scalar 0x401D000000000000,
                 las_z = Scalar 0\<rparr>)
      CSV \<lparr>up_name = ustr ''one.laz'', up_bytes = []\<rparr>))
   = [(blit ''X,Y,Z'' @ [0x0A] @ blit ''12.5,7.25,0.0'' @ [0x0A], ustr ''text/csv'')]"
  using single_point_csv
    [where read = "\<lambda>b. Inr \<lparr>las_x = Array [0x4029000000000000],
                      las_y = Scalar 0x401D000000000000, las_z = Scalar 0\<rparr>"
       and f = "\<lparr>up_name = ustr ''one.laz'', up_bytes = []\<rparr>"
       and las = "\<lparr>las_x = Array [0x4029000000000000],
                      las_y = Scalar 0x401D000000000000, las_z = Scalar 0\<rparr>"]
  by simp

subsection \<open>Digit strings\<close>

lemma digits_value_append:
  "digits_value (a @ b) = digits_value a * 10 ^ length b + digits_value b"
proof (induction b rule: rev_induct)
  case Nil
  then show ?case by (simp add: digits_value_def)
next
  case (snoc c b)
  have "digits_value ((a @ b) @ [c]) = 10 * digits_value (a @ b) + (c - 48)"
    by (rule digits_value_snoc)
  also have "\<dots> = 10 * (digits_value a * 10 ^ length b + digits_value b) + (c - 48)"
    by (simp only: snoc.IH)
  also have "\<dots> = digits_value a * 10 ^ length (b @ [c]) + digits_value (b @ [c])"
    by (simp add: digits_value_snoc algebra_simps)
  finally show ?case by simp
qed

lemma digits_value_zeros: "digits_value (replicate j 48) = 0"
proof (induction j)
  case 0
  then show ?case by (simp add: digits_value_def)
next
  case (Suc j)
  have "replicate (Suc j) (48::nat) = replicate j 48 @ [48]"
    by (simp add: replicate_append_same)
  then show ?case
    using Suc by (simp only: digits_value_snoc)
qed

lemma digits_value_leading_zeros: "digits_value (replicate j 48 @ ds) = digits_value ds"
  by (simp add: digits_value_append digits_value_zeros)

lemma digits_value_trailing_zeros: "digits_value (ds @ replicate j 48) = digits_value ds * 10 ^ j"
  by (simp add: digits_value_append digits_value_zeros)

lemma rstrip0_decomp: "\<exists>j. ds = rstrip0 ds @ replicate j 48"
proof -
  have "rev ds = takeWhile (\<lambda>c. c = 48) (rev ds) @ dropWhile (\<lambda>c. c = 48) (rev ds)"
    by simp
  then have "ds = rev (dropWhile (\<lambda>c. c = 48) (rev ds)) @ rev (takeWhile (\<lambda>c. c = 48) (rev ds))"
    by (metis rev_append rev_rev_ident)
  moreover have "takeWhile (\<lambda>c. c = 48) (rev ds)
      = replicate (length (takeWhile (\<lambda>c. c = 48) (rev ds))) (48::nat)"
    by (rule replicate_length_same [symmetric]) (auto dest: set_takeWhileD)
  ultimately have "ds = rstrip0 ds @ rev (replicate (length (takeWhile (\<lambda>c. c = 48) (rev ds))) 48)"
    by (simp add: rstrip0_def)
  then show ?thesis
    by (metis rev_replicate)
qed

lemma rstrip0_digits: "list_all is_digit ds \<Longrightarrow> list_all is_digit (rstrip0 ds)"
  by (auto simp: rstrip0_def list_all_iff dest: set_dropWhileD)

lemma rstrip0_value:
  "digits_value (rstrip0 ds) * 10 ^ (length ds - length (rstrip0 ds)) = digits_value ds"
proof -
  obtain j where j: "ds = rstrip0 ds @ replicate j 48"
    using rstrip0_decomp by blast
  then have "length ds = length (rstrip0 ds) + j"
    by (metis length_append length_replicate)
  then have "length ds - length (rstrip0 ds) = j"
    by simp
  moreover have "digits_value ds = digits_value (rstrip0 ds) * 10 ^ j"
    by (subst j) (rule digits_value_trailing_zeros)
  ultimately show ?thesis by simp
qed

lemma rstrip0_length: "length (rstrip0 ds) \<le> length ds"
  by (simp add: rstrip0_def) (metis length_dropWhile_le length_rev)

lemma rstrip0_not_Nil: "0 < digits_value ds \<Longrightarrow> rstrip0 ds \<noteq> []"
proof
  assume pos: "0 < digits_value ds" and "rstrip0 ds = []"
  then have "digits_value (rstrip0 ds) = 0"
    by (simp add: digits_value_def)
  with rstrip0_value [of ds] pos show False
    by simp
qed

lemma all_digits_rstrip0_str_nat: "0 < d \<Longrightarrow> all_digits (rstrip0 (str_nat d))"
  using rstrip0_not_Nil [of "str_nat d"] rstrip0_digits [OF str_nat_digits, of d]
  by (simp add: all_digits_def digits_value_str_nat)

subsection \<open>Reading the text of a number\<close>

lemma digit_chars:
  assumes "list_all is_digit ds"
  shows "46 \<notin> set ds" and "101 \<notin> set ds" and "44 \<notin> set ds" and "10 \<notin> set ds"
    and "45 \<notin> set ds" and "43 \<notin> set ds"
  using assms by (auto simp: list_all_iff is_digit_def)

lemma all_digits_append:
  "list_all is_digit a \<Longrightarrow> list_all is_digit b \<Longrightarrow> a \<noteq> [] \<or> b \<noteq> [] \<Longrightarrow> all_digits (a @ b)"
  by (auto simp: all_digits_def)

lemma zeros_digits: "list_all is_digit (replicate j 48)"
  by (simp add: list_all_iff is_digit_def)

lemma parse_mantissa_plain:
  assumes "all_digits ip"
  shows "parse_mantissa ip = Some (digits_value ip, 0)"
proof -
  have "46 \<notin> set ip"
    using assms digit_chars(1) by (simp add: all_digits_def)
  then have "split_on 46 ip = [ip]"
    by (rule split_on_no_sep)
  then show ?thesis
    using assms by (simp add: parse_mantissa_def)
qed

lemma parse_mantissa_point:
  assumes "all_digits ip" and "all_digits fp"
  shows "parse_mantissa (ip @ 46 # fp) = Some (digits_value (ip @ fp), length fp)"
proof -
  have "46 \<notin> set ip" and "46 \<notin> set fp"
    using assms digit_chars(1) by (simp_all add: all_digits_def)
  then have "split_on 46 (ip @ 46 # fp) = [ip, fp]"
    by (simp add: split_on_append split_on_no_sep)
  then show ?thesis
    using assms by (simp add: parse_mantissa_def)
qed

lemma parse_unsigned_plain:
  assumes "101 \<notin> set mt" and "parse_mantissa mt = Some (D, f)"
  shows "parse_unsigned mt = Some (D, - int f)"
  using assms by (simp add: parse_unsigned_def split_on_no_sep)

lemma parse_unsigned_exp:
  assumes "101 \<notin> set mt" and "101 \<notin> set ex"
    and "parse_mantissa mt = Some (D, f)" and "parse_exponent ex = Some x"
  shows "parse_unsigned (mt @ 101 # ex) = Some (D, x - int f)"
  using assms by (simp add: parse_unsigned_def split_on_append split_on_no_sep)

lemma parse_exponent_signed:
  assumes "all_digits cs"
  shows "parse_exponent (43 # cs) = Some (int (digits_value cs))"
    and "parse_exponent (45 # cs) = Some (- int (digits_value cs))"
  using assms by (simp_all add: parse_exponent_def)

text \<open>The exponent as \<open>repr\<close> writes it: a sign and at least two digits.\<close>

lemma ustr_signs: "ustr ''-'' = [45]" "ustr ''+'' = [43]"
  by (simp_all add: ustr_def)

lemma parse_exponent_repr:
  "parse_exponent ((if x < 0 then ustr ''-'' else ustr ''+'') @
      (if \<bar>x\<bar> < 10 then ustr ''0'' else []) @ str_nat (nat \<bar>x\<bar>)) = Some x"
proof -
  define cs where "cs = (if \<bar>x\<bar> < 10 then ustr ''0'' else []) @ str_nat (nat \<bar>x\<bar>)"
  have d: "all_digits cs"
    using str_nat_digits [of "nat \<bar>x\<bar>"] str_nat_not_Nil [of "nat \<bar>x\<bar>"]
    by (simp add: cs_def all_digits_def ustr_def is_digit_def)
  have v: "digits_value cs = nat \<bar>x\<bar>"
    using digits_value_leading_zeros [of 1 "str_nat (nat \<bar>x\<bar>)"]
    by (simp add: cs_def digits_value_str_nat ustr_def)
  have "parse_exponent ((if x < 0 then ustr ''-'' else ustr ''+'') @ cs) = Some x"
  proof (cases "x < 0")
    case True
    have "parse_exponent (45 # cs) = Some (- int (digits_value cs))"
      by (rule parse_exponent_signed(2) [OF d])
    also have "- int (digits_value cs) = x"
      using True by (simp add: v)
    finally show ?thesis
      using True by (simp add: ustr_signs)
  next
    case False
    have "parse_exponent (43 # cs) = Some (int (digits_value cs))"
      by (rule parse_exponent_signed(1) [OF d])
    also have "int (digits_value cs) = x"
      using False by (simp add: v)
    finally show ?thesis
      using False by (simp add: ustr_signs)
  qed
  then show ?thesis
    by (simp only: cs_def)
qed

lemma same_decimal_refl: "same_decimal d p d p"
  by (simp add: same_decimal_def)

lemma no_e_digits:
  "list_all is_digit ds \<Longrightarrow> 101 \<notin> set ds"
  by (rule digit_chars(2))

lemma repr_digits_leading_zero:
  assumes "all_digits ds" and "k \<le> 0"
  shows "parse_unsigned (ustr ''0.'' @ replicate (nat (- k)) 48 @ ds)
         = Some (digits_value ds, k - int (length ds))"
proof -
  let ?z = "replicate (nat (- k)) (48::nat)"
  have ds: "list_all is_digit ds" "ds \<noteq> []"
    using assms(1) by (simp_all add: all_digits_def)
  have fp: "all_digits (?z @ ds)"
    using ds zeros_digits by (simp add: all_digits_def)
  have ip: "all_digits [48]"
    by (simp add: all_digits_def is_digit_def)
  have m: "parse_mantissa ([48] @ 46 # (?z @ ds)) = Some (digits_value ([48] @ (?z @ ds)), length (?z @ ds))"
    using ip fp by (rule parse_mantissa_point)
  have v: "digits_value ([48] @ (?z @ ds)) = digits_value ds"
    using digits_value_leading_zeros [of "Suc (nat (- k))" ds] by simp
  have ne: "101 \<notin> set ([48] @ 46 # (?z @ ds))"
    using no_e_digits [OF ds(1)] by simp
  have "parse_unsigned ([48] @ 46 # (?z @ ds)) = Some (digits_value ds, - int (length (?z @ ds)))"
    using parse_unsigned_plain [OF ne m] by (simp only: v)
  moreover have "- int (length (?z @ ds)) = k - int (length ds)"
    using assms(2) by simp
  ultimately show ?thesis
    by (simp add: ustr_def)
qed

lemma repr_digits_inner_point:
  assumes "all_digits ds" and "0 < k" and "k < int (length ds)"
  shows "parse_unsigned (take (nat k) ds @ ustr ''.'' @ drop (nat k) ds)
         = Some (digits_value ds, k - int (length ds))"
proof -
  have ds: "list_all is_digit ds"
    using assms(1) by (simp add: all_digits_def)
  have ip: "all_digits (take (nat k) ds)"
    using ds assms(2,3) by (auto simp: all_digits_def list_all_iff dest: in_set_takeD)
  have fp: "all_digits (drop (nat k) ds)"
    using ds assms(2,3) by (auto simp: all_digits_def list_all_iff dest: in_set_dropD)
  have m: "parse_mantissa (take (nat k) ds @ 46 # drop (nat k) ds)
      = Some (digits_value (take (nat k) ds @ drop (nat k) ds), length (drop (nat k) ds))"
    using ip fp by (rule parse_mantissa_point)
  have ne: "101 \<notin> set (take (nat k) ds @ 46 # drop (nat k) ds)"
    using no_e_digits [OF ds] by (auto dest: in_set_takeD in_set_dropD)
  have "parse_unsigned (take (nat k) ds @ 46 # drop (nat k) ds)
      = Some (digits_value (take (nat k) ds @ drop (nat k) ds), - int (length (drop (nat k) ds)))"
    by (rule parse_unsigned_plain [OF ne m])
  moreover have "- int (length (drop (nat k) ds)) = k - int (length ds)"
    using assms(2,3) by simp
  ultimately show ?thesis
    by (simp add: ustr_def)
qed

lemma repr_digits_trailing_zero:
  assumes "all_digits ds" and "int (length ds) \<le> k"
  shows "parse_unsigned (ds @ replicate (nat (k - int (length ds))) 48 @ ustr ''.0'')
         = Some (digits_value ds * 10 ^ (nat (k - int (length ds)) + 1), - 1)"
proof -
  let ?z = "replicate (nat (k - int (length ds))) (48::nat)"
  have ds: "list_all is_digit ds" "ds \<noteq> []"
    using assms(1) by (simp_all add: all_digits_def)
  have ip: "all_digits (ds @ ?z)"
    using ds zeros_digits by (simp add: all_digits_def)
  have fp: "all_digits [48]"
    by (simp add: all_digits_def is_digit_def)
  have m: "parse_mantissa ((ds @ ?z) @ 46 # [48]) = Some (digits_value ((ds @ ?z) @ [48]), length [48::nat])"
    using ip fp by (rule parse_mantissa_point)
  have "(ds @ ?z) @ [48] = ds @ replicate (nat (k - int (length ds)) + 1) 48"
    by (simp add: replicate_append_same)
  then have v: "digits_value ((ds @ ?z) @ [48]) = digits_value ds * 10 ^ (nat (k - int (length ds)) + 1)"
    by (simp only: digits_value_trailing_zeros)
  have ne: "101 \<notin> set ((ds @ ?z) @ 46 # [48])"
    using no_e_digits [OF ds(1)] by simp
  have "parse_unsigned ((ds @ ?z) @ 46 # [48])
      = Some (digits_value ds * 10 ^ (nat (k - int (length ds)) + 1), - int (length [48::nat]))"
    using parse_unsigned_plain [OF ne m] by (simp only: v)
  then show ?thesis
    by (simp add: ustr_def)
qed

lemma repr_digits_exponent:
  assumes "all_digits ds"
  shows "parse_unsigned (take 1 ds @ (if 1 < length ds then ustr ''.'' @ drop 1 ds else []) @ ustr ''e'' @
           (if k - 1 < 0 then ustr ''-'' else ustr ''+'') @
           (if \<bar>k - 1\<bar> < 10 then ustr ''0'' else []) @ str_nat (nat \<bar>k - 1\<bar>))
         = Some (digits_value ds, k - int (length ds))"
proof -
  define ex where "ex = (if k - 1 < 0 then ustr ''-'' else ustr ''+'') @
           (if \<bar>k - 1\<bar> < 10 then ustr ''0'' else []) @ str_nat (nat \<bar>k - 1\<bar>)"
  define mt where "mt = take 1 ds @ (if 1 < length ds then ustr ''.'' @ drop 1 ds else [])"
  have ds: "list_all is_digit ds" "ds \<noteq> []"
    using assms(1) by (simp_all add: all_digits_def)
  have pe: "parse_exponent ex = Some (k - 1)"
    unfolding ex_def by (rule parse_exponent_repr)
  have ne_ex: "101 \<notin> set ex"
    using no_e_digits [OF str_nat_digits, of "nat \<bar>k - 1\<bar>"]
    by (simp add: ex_def ustr_def)
  have ne_mt: "101 \<notin> set mt"
    using no_e_digits [OF ds(1)] by (auto simp: mt_def ustr_def dest: in_set_takeD in_set_dropD)
  have pm: "parse_mantissa mt = Some (digits_value ds, length ds - 1)"
  proof (cases "1 < length ds")
    case True
    have ip: "all_digits (take 1 ds)"
      using ds by (auto simp: all_digits_def list_all_iff dest: in_set_takeD)
    have fp: "all_digits (drop 1 ds)"
      using ds True by (auto simp: all_digits_def list_all_iff dest: in_set_dropD)
    have "parse_mantissa (take 1 ds @ 46 # drop 1 ds)
        = Some (digits_value (take 1 ds @ drop 1 ds), length (drop 1 ds))"
      using ip fp by (rule parse_mantissa_point)
    then show ?thesis
      using True by (simp add: mt_def ustr_def)
  next
    case False
    with ds(2) have one: "length ds = 1"
      by (cases ds) auto
    then have "take 1 ds = ds"
      by simp
    then have "mt = ds"
      using False by (simp add: mt_def)
    then show ?thesis
      using parse_mantissa_plain [OF assms] one by simp
  qed
  have "parse_unsigned (mt @ 101 # ex) = Some (digits_value ds, (k - 1) - int (length ds - 1))"
    by (rule parse_unsigned_exp [OF ne_mt ne_ex pm pe])
  moreover have "(k - 1) - int (length ds - 1) = k - int (length ds)"
    using ds(2) by (cases ds) auto
  ultimately have "parse_unsigned (mt @ 101 # ex) = Some (digits_value ds, k - int (length ds))"
    by simp
  then show ?thesis
    by (simp add: mt_def ex_def ustr_def)
qed

lemma parse_unsigned_repr_digits:
  assumes "all_digits ds"
  shows "\<exists>D P. parse_unsigned (repr_digits ds k) = Some (D, P) \<and>
           same_decimal (digits_value ds) (k - int (length ds)) D P"
proof -
  consider (a) "- 4 < k" "k \<le> 0" | (b) "0 < k" "k < int (length ds)" "k \<le> 16"
    | (c) "int (length ds) \<le> k" "0 < k" "k \<le> 16" | (d) "\<not> (- 4 < k \<and> k \<le> 16)"
    by linarith
  then show ?thesis
  proof cases
    case a
    then have "repr_digits ds k = ustr ''0.'' @ replicate (nat (- k)) 48 @ ds"
      by (simp add: repr_digits_def)
    then show ?thesis
      using repr_digits_leading_zero [OF assms a(2)] same_decimal_refl by auto
  next
    case b
    then have "repr_digits ds k = take (nat k) ds @ ustr ''.'' @ drop (nat k) ds"
      by (simp add: repr_digits_def)
    then show ?thesis
      using repr_digits_inner_point [OF assms b(1,2)] same_decimal_refl by auto
  next
    case c
    then have "repr_digits ds k = ds @ replicate (nat (k - int (length ds))) 48 @ ustr ''.0''"
      by (simp add: repr_digits_def)
    moreover have "same_decimal (digits_value ds) (k - int (length ds))
        (digits_value ds * 10 ^ (nat (k - int (length ds)) + 1)) (- 1)"
      using c(1) by (simp add: same_decimal_def)
    ultimately show ?thesis
      using repr_digits_trailing_zero [OF assms c(1)] by auto
  next
    case d
    then have "repr_digits ds k =
        take 1 ds @ (if 1 < length ds then ustr ''.'' @ drop 1 ds else []) @ ustr ''e'' @
        (if k - 1 < 0 then ustr ''-'' else ustr ''+'') @
        (if \<bar>k - 1\<bar> < 10 then ustr ''0'' else []) @ str_nat (nat \<bar>k - 1\<bar>)"
      by (simp only: repr_digits_def if_False)
    then show ?thesis
      using repr_digits_exponent [OF assms, of k] same_decimal_refl by auto
  qed
qed

subsection \<open>The rounding interval on one scale\<close>

lemma le_scale_iff:
  fixes P Q P' Q' :: nat
  assumes "0 < a" and "0 < b" and "a * P = b * P'" and "a * Q = b * Q'"
  shows "(P \<le> Q) = (P' \<le> Q')" and "(P < Q) = (P' < Q')"
proof -
  have "(P \<le> Q) = (a * P \<le> a * Q)"
    using assms(1) by simp
  also have "\<dots> = (b * P' \<le> b * Q')"
    by (simp only: assms(3,4))
  also have "\<dots> = (P' \<le> Q')"
    using assms(2) by simp
  finally show "(P \<le> Q) = (P' \<le> Q')" .
  have "(P < Q) = (a * P < a * Q)"
    using assms(1) by simp
  also have "\<dots> = (b * P' < b * Q')"
    by (simp only: assms(3,4))
  also have "\<dots> = (P' < Q')"
    using assms(2) by simp
  finally show "(P < Q) = (P' < Q')" .
qed

lemma two_scales:
  assumes "- 1074 \<le> e"
  shows "(2::nat) ^ nat (e + 1074) * 2 ^ nat (- (e - 2)) = 2 ^ 1076 * 2 ^ nat (e - 2)"
proof -
  have "nat (e + 1074) + nat (- (e - 2)) = 1076 + nat (e - 2)"
    using assms by linarith
  then have "(2::nat) ^ (nat (e + 1074) + nat (- (e - 2))) = 2 ^ (1076 + nat (e - 2))"
    by (rule arg_cong)
  then show ?thesis
    by (simp only: power_add)
qed

lemma reads_back_in_interval:
  assumes "- 1074 \<le> e"
  shows "reads_back m e (bin_scale (e - 2) p) (dec_scale (e - 2) p) d = in_interval m e d p"
proof -
  define a2 :: nat where "a2 = 2 ^ nat (e - 2)"
  define c :: nat where "c = 2 ^ nat (- (e - 2))"
  define G :: nat where "G = 2 ^ nat (e + 1074)"
  define T :: nat where "T = 2 ^ 1076"
  define S :: nat where "S = 10 ^ nat (- p)"
  define Q :: nat where "Q = 10 ^ nat p"
  have pos: "0 < a2" "0 < G"
    by (simp_all add: a2_def G_def)
  have gc: "G * c = T * a2"
    unfolding G_def c_def T_def a2_def using assms by (rule two_scales)
  have A: "bin_scale (e - 2) p = a2 * S"
    by (simp add: bin_scale_def a2_def S_def)
  have B: "dec_scale (e - 2) p = c * Q"
    by (simp add: dec_scale_def c_def Q_def)
  have low: "G * (l * (a2 * S)) = a2 * (l * G * S)" for l
    by (simp add: ac_simps)
  have mid: "G * (d * (c * Q)) = a2 * (d * Q * T)"
  proof -
    have "G * (d * (c * Q)) = d * Q * (G * c)"
      by (simp add: ac_simps)
    also have "\<dots> = d * Q * (T * a2)"
      by (simp only: gc)
    also have "\<dots> = a2 * (d * Q * T)"
      by (simp add: ac_simps)
    finally show ?thesis .
  qed
  have l1: "(l * (a2 * S) \<le> d * (c * Q)) = (l * G * S \<le> d * Q * T)" for l
    by (rule le_scale_iff(1) [OF pos(2) pos(1) low mid])
  have l2: "(l * (a2 * S) < d * (c * Q)) = (l * G * S < d * Q * T)" for l
    by (rule le_scale_iff(2) [OF pos(2) pos(1) low mid])
  have h1: "(d * (c * Q) \<le> h * (a2 * S)) = (d * Q * T \<le> h * G * S)" for h
    by (rule le_scale_iff(1) [OF pos(2) pos(1) mid low])
  have h2: "(d * (c * Q) < h * (a2 * S)) = (d * Q * T < h * G * S)" for h
    by (rule le_scale_iff(2) [OF pos(2) pos(1) mid low])
  have "reads_back m e (a2 * S) (c * Q) d =
      (if even m
       then (4 * m - (if m = 2 ^ 52 \<and> - 1074 < e then 1 else 2)) * G * S \<le> d * Q * T \<and>
            d * Q * T \<le> (4 * m + 2) * G * S
       else (4 * m - (if m = 2 ^ 52 \<and> - 1074 < e then 1 else 2)) * G * S < d * Q * T \<and>
            d * Q * T < (4 * m + 2) * G * S)"
    unfolding reads_back_def Let_def by (simp only: l1 l2 h1 h2)
  also have "\<dots> = in_interval m e d p"
    unfolding in_interval_def Let_def G_def T_def S_def Q_def by (rule refl)
  finally show ?thesis
    by (simp only: A B)
qed

lemma in_interval_same_decimal:
  assumes "same_decimal d p D P"
  shows "in_interval m e d p = in_interval m e D P"
proof -
  define G :: nat where "G = 2 ^ nat (e + 1074)"
  define T :: nat where "T = 2 ^ 1076"
  have pos: "(0::nat) < 10 ^ nat (- P)" "(0::nat) < 10 ^ nat (- p)"
    by simp_all
  have sd: "d * 10 ^ nat p * 10 ^ nat (- P) = D * 10 ^ nat P * 10 ^ nat (- p)"
    using assms by (simp add: same_decimal_def)
  have low: "10 ^ nat (- P) * (l * G * 10 ^ nat (- p)) = 10 ^ nat (- p) * (l * G * 10 ^ nat (- P))" for l
    by (simp add: ac_simps)
  have mid: "10 ^ nat (- P) * (d * 10 ^ nat p * T) = 10 ^ nat (- p) * (D * 10 ^ nat P * T)"
  proof -
    have "10 ^ nat (- P) * (d * 10 ^ nat p * T) = (d * 10 ^ nat p * 10 ^ nat (- P)) * T"
      by (simp add: ac_simps)
    also have "\<dots> = (D * 10 ^ nat P * 10 ^ nat (- p)) * T"
      by (simp only: sd)
    also have "\<dots> = 10 ^ nat (- p) * (D * 10 ^ nat P * T)"
      by (simp add: ac_simps)
    finally show ?thesis .
  qed
  have l1: "(l * G * 10 ^ nat (- p) \<le> d * 10 ^ nat p * T) = (l * G * 10 ^ nat (- P) \<le> D * 10 ^ nat P * T)" for l
    by (rule le_scale_iff(1) [OF pos low mid])
  have l2: "(l * G * 10 ^ nat (- p) < d * 10 ^ nat p * T) = (l * G * 10 ^ nat (- P) < D * 10 ^ nat P * T)" for l
    by (rule le_scale_iff(2) [OF pos low mid])
  have h1: "(d * 10 ^ nat p * T \<le> h * G * 10 ^ nat (- p)) = (D * 10 ^ nat P * T \<le> h * G * 10 ^ nat (- P))" for h
    by (rule le_scale_iff(1) [OF pos mid low])
  have h2: "(d * 10 ^ nat p * T < h * G * 10 ^ nat (- p)) = (D * 10 ^ nat P * T < h * G * 10 ^ nat (- P))" for h
    by (rule le_scale_iff(2) [OF pos mid low])
  show ?thesis
    unfolding in_interval_def Let_def G_def [symmetric] T_def [symmetric]
    by (simp only: l1 l2 h1 h2)
qed

subsection \<open>A decimal reads back as one binary64 only\<close>

lemma interval_order_same_exponent:
  assumes "valid_f64 m e" and "valid_f64 m' e" and "m < m'"
  shows "(4 * m + 2) * G \<le> (4 * m' - (if m' = 2 ^ 52 \<and> - 1074 < e then 1 else 2)) * (G :: nat)"
    and "0 < G \<Longrightarrow>
         (4 * m + 2) * G = (4 * m' - (if m' = 2 ^ 52 \<and> - 1074 < e then 1 else 2)) * G \<Longrightarrow>
         odd m \<or> odd m'"
proof -
  have nb: "\<not> (m' = 2 ^ 52 \<and> - 1074 < e)"
    using assms by (auto simp: valid_f64_def)
  have le: "4 * m + 2 \<le> 4 * m' - 2"
    using assms(3) by simp
  show "(4 * m + 2) * G \<le> (4 * m' - (if m' = 2 ^ 52 \<and> - 1074 < e then 1 else 2)) * G"
    using nb le by (simp only: if_False mult_le_mono1)
  show "odd m \<or> odd m'"
    if "0 < G" "(4 * m + 2) * G = (4 * m' - (if m' = 2 ^ 52 \<and> - 1074 < e then 1 else 2)) * G"
  proof -
    from that(2) have "(4 * m + 2) * G = (4 * m' - 2) * G"
      by (simp only: nb if_False)
    with that(1) have "4 * m + 2 = 4 * m' - 2"
      by (simp only: mult_cancel2) simp
    with assms(3) have "m' = m + 1"
      by simp
    then show ?thesis
      by simp
  qed
qed

lemma interval_order_larger_exponent:
  assumes "valid_f64 m e" and "valid_f64 m' e'" and "e < e'"
  shows "(4 * m + 2) * 2 ^ nat (e + 1074)
         \<le> (4 * m' - (if m' = 2 ^ 52 \<and> - 1074 < e' then 1 else 2)) * 2 ^ nat (e' + 1074)"
    and "(4 * m + 2) * 2 ^ nat (e + 1074)
         = (4 * m' - (if m' = 2 ^ 52 \<and> - 1074 < e' then 1 else 2)) * 2 ^ nat (e' + 1074)
         \<Longrightarrow> odd m"
proof -
  define lo' where "lo' = 4 * m' - (if m' = 2 ^ 52 \<and> - 1074 < e' then 1 else 2)"
  define q where "q = nat (e' - e)"
  define G :: nat where "G = 2 ^ nat (e + 1074)"
  have e: "- 1074 \<le> e"
    using assms(1) by (auto simp: valid_f64_def)
  have m: "m < 2 ^ 53"
    using assms(1) by (auto simp: valid_f64_def)
  have m': "2 ^ 52 \<le> m'"
    using assms(2,3) e by (auto simp: valid_f64_def)
  have e': "- 1074 < e'"
    using assms(3) e by simp
  have lo: "2 ^ 54 - 1 \<le> lo'"
    using m' e' by (auto simp: lo'_def)
  have "nat (e' + 1074) = q + nat (e + 1074)"
    using assms(3) e by (simp add: q_def)
  then have G': "2 ^ nat (e' + 1074) = 2 ^ q * G"
    by (simp add: G_def power_add)
  have "1 \<le> q"
    using assms(3) by (simp add: q_def)
  then have "(2::nat) ^ 1 \<le> 2 ^ q"
    by (intro power_increasing) simp_all
  then have q2: "(2::nat) \<le> 2 ^ q"
    by simp
  have a: "4 * m + 2 \<le> 2 * (2 ^ 54 - 1)"
    using m by simp
  have b: "2 * (2 ^ 54 - 1) \<le> 2 * lo'"
    using lo by simp
  have c: "2 * lo' \<le> 2 ^ q * lo'"
    using q2 by (rule mult_le_mono1)
  have le: "4 * m + 2 \<le> 2 ^ q * lo'"
    using a b c by linarith
  have "(4 * m + 2) * G \<le> (2 ^ q * lo') * G"
    using le by (rule mult_le_mono1)
  then have t: "(4 * m + 2) * G \<le> lo' * (2 ^ q * G)"
    by (simp only: ac_simps)
  show "(4 * m + 2) * 2 ^ nat (e + 1074)
         \<le> (4 * m' - (if m' = 2 ^ 52 \<and> - 1074 < e' then 1 else 2)) * 2 ^ nat (e' + 1074)"
    unfolding G' lo'_def [symmetric] G_def [symmetric] by (rule t)
  show "odd m"
    if "(4 * m + 2) * 2 ^ nat (e + 1074)
         = (4 * m' - (if m' = 2 ^ 52 \<and> - 1074 < e' then 1 else 2)) * 2 ^ nat (e' + 1074)"
  proof -
    from that have "(4 * m + 2) * G = lo' * (2 ^ q * G)"
      unfolding G' lo'_def [symmetric] G_def [symmetric] .
    then have "(4 * m + 2) * G = (2 ^ q * lo') * G"
      by (simp only: ac_simps)
    moreover have "0 < G"
      by (simp add: G_def)
    ultimately have "4 * m + 2 = 2 ^ q * lo'"
      by (simp only: mult_cancel2) simp
    with a b c have "4 * m + 2 = 2 * (2 ^ 54 - 1)"
      by linarith
    then have "m = 2 ^ 53 - 1"
      by simp
    then show ?thesis
      by simp
  qed
qed

lemma in_interval_bounds:
  assumes "in_interval m e d p"
  shows "(4 * m - (if m = 2 ^ 52 \<and> - 1074 < e then 1 else 2)) * 2 ^ nat (e + 1074) * 10 ^ nat (- p)
           \<le> d * 10 ^ nat p * 2 ^ 1076"
    and "d * 10 ^ nat p * 2 ^ 1076 \<le> (4 * m + 2) * 2 ^ nat (e + 1074) * 10 ^ nat (- p)"
    and "odd m \<Longrightarrow>
         (4 * m - (if m = 2 ^ 52 \<and> - 1074 < e then 1 else 2)) * 2 ^ nat (e + 1074) * 10 ^ nat (- p)
           < d * 10 ^ nat p * 2 ^ 1076"
    and "odd m \<Longrightarrow> d * 10 ^ nat p * 2 ^ 1076 < (4 * m + 2) * 2 ^ nat (e + 1074) * 10 ^ nat (- p)"
  using assms by (auto simp: in_interval_def Let_def split: if_splits)

lemma in_interval_ordered:
  assumes "valid_f64 m e" and "valid_f64 m' e'"
    and "e < e' \<or> (e = e' \<and> m < m')"
    and "in_interval m e d p" and "in_interval m' e' d p"
  shows False
proof -
  define hi2 where "hi2 = (4 * m + 2) * 2 ^ nat (e + 1074)"
  define lo2 where "lo2 = (4 * m' - (if m' = 2 ^ 52 \<and> - 1074 < e' then 1 else 2)) * 2 ^ nat (e' + 1074)"
  define S :: nat where "S = 10 ^ nat (- p)"
  define X where "X = d * 10 ^ nat p * 2 ^ 1076"
  have S: "0 < S"
    by (simp add: S_def)
  have ord: "hi2 \<le> lo2" and par: "hi2 = lo2 \<Longrightarrow> odd m \<or> odd m'"
  proof -
    from assms(3) show "hi2 \<le> lo2"
    proof
      assume "e < e'"
      then show ?thesis
        unfolding hi2_def lo2_def by (rule interval_order_larger_exponent(1) [OF assms(1,2)])
    next
      assume "e = e' \<and> m < m'"
      then show ?thesis
        unfolding hi2_def lo2_def
        using interval_order_same_exponent(1) [of m e m' "2 ^ nat (e + 1074)"] assms(1,2) by simp
    qed
    from assms(3) show "odd m \<or> odd m'" if "hi2 = lo2"
    proof
      assume "e < e'"
      then show ?thesis
        using that interval_order_larger_exponent(2) [OF assms(1,2)]
        unfolding hi2_def lo2_def by simp
    next
      assume "e = e' \<and> m < m'"
      then show ?thesis
        using that interval_order_same_exponent(2) [of m e m' "2 ^ nat (e + 1074)"] assms(1,2)
        unfolding hi2_def lo2_def by simp
    qed
  qed
  have up: "X \<le> hi2 * S" and up_strict: "odd m \<Longrightarrow> X < hi2 * S"
    using in_interval_bounds(2,4) [OF assms(4)] by (simp_all add: X_def hi2_def S_def)
  have low: "lo2 * S \<le> X" and low_strict: "odd m' \<Longrightarrow> lo2 * S < X"
    using in_interval_bounds(1,3) [OF assms(5)] by (simp_all add: X_def lo2_def S_def)
  have "hi2 * S \<le> lo2 * S"
    using ord by (rule mult_le_mono1)
  with up low have eq: "hi2 * S = lo2 * S" and x: "X = hi2 * S" "X = lo2 * S"
    by linarith+
  from eq S have "hi2 = lo2"
    by simp
  then have "odd m \<or> odd m'"
    by (rule par)
  then show False
    using up_strict low_strict x by auto
qed

lemma in_interval_unique:
  assumes "valid_f64 m e" and "valid_f64 m' e'"
    and "in_interval m e d p" and "in_interval m' e' d p"
  shows "m = m' \<and> e = e'"
proof (rule ccontr)
  assume "\<not> (m = m' \<and> e = e')"
  then consider "e < e' \<or> (e = e' \<and> m < m')" | "e' < e \<or> (e' = e \<and> m' < m)"
    by linarith
  then show False
  proof cases
    case 1
    then show ?thesis
      by (rule in_interval_ordered [OF assms(1,2) _ assms(3,4)])
  next
    case 2
    then show ?thesis
      by (rule in_interval_ordered [OF assms(2,1) _ assms(4,3)])
  qed
qed

subsection \<open>The fields of a binary64\<close>

lemma mask_52: "(0xFFFFFFFFFFFFF :: 64 word) = mask 52"
  by (simp add: mask_eq_exp_minus_1)

lemma mask_11: "(0x7FF :: 64 word) = mask 11"
  by (simp add: mask_eq_exp_minus_1)

lemma fraction_bound: "unat ((w :: 64 word) AND 0xFFFFFFFFFFFFF) < 2 ^ 52"
proof -
  have "unat (w AND 0xFFFFFFFFFFFFF) \<le> unat (0xFFFFFFFFFFFFF :: 64 word)"
    by (rule word_and_le1 [THEN word_le_nat_alt [THEN iffD1]])
  then show ?thesis by simp
qed

lemma exponent_bound: "unat (drop_bit 52 (w :: 64 word) AND 0x7FF) < 2048"
proof -
  have "unat (drop_bit 52 w AND 0x7FF) \<le> unat (0x7FF :: 64 word)"
    by (rule word_and_le1 [THEN word_le_nat_alt [THEN iffD1]])
  then show ?thesis by simp
qed

lemma decode_f64_cases:
  "\<exists>ex fr. ex < 2048 \<and> fr < 2 ^ 52 \<and>
     ex = unat (drop_bit 52 w AND 0x7FF) \<and> fr = unat (w AND 0xFFFFFFFFFFFFF) \<and>
     decode_f64 w =
       (if ex = 2047 then (if fr = 0 then Infinite (bit w 63) else NaN)
        else if ex = 0 then Finite (bit w 63) fr (- 1074)
        else Finite (bit w 63) (2 ^ 52 + fr) (int ex - 1075))"
  using fraction_bound [of w] exponent_bound [of w]
  by (intro exI [of _ "unat (drop_bit 52 w AND 0x7FF)"] exI [of _ "unat (w AND 0xFFFFFFFFFFFFF)"])
    (simp only: decode_f64_def Let_def simp_thms)

lemma decode_f64_valid:
  assumes "decode_f64 w = Finite s m e"
  shows "valid_f64 m e"
proof -
  obtain ex fr where b: "ex < 2048" "fr < 2 ^ 52"
    and d: "decode_f64 w =
       (if ex = 2047 then (if fr = 0 then Infinite (bit w 63) else NaN)
        else if ex = 0 then Finite (bit w 63) fr (- 1074)
        else Finite (bit w 63) (2 ^ 52 + fr) (int ex - 1075))"
    using decode_f64_cases [of w] by blast
  from assms d b show ?thesis
    by (auto simp: valid_f64_def split: if_splits)
qed

lemma fields_determine:
  fixes w w' :: "64 word"
  assumes "bit w 63 = bit w' 63"
    and "w AND 0xFFFFFFFFFFFFF = w' AND 0xFFFFFFFFFFFFF"
    and "drop_bit 52 w AND 0x7FF = drop_bit 52 w' AND 0x7FF"
  shows "w = w'"
proof (rule bit_word_eqI)
  fix n assume n: "n < LENGTH(64)"
  consider "n < 52" | "52 \<le> n" "n < 63" | "n = 63"
    using n by fastforce
  then show "bit w n = bit w' n"
  proof cases
    case 1
    have "bit (w AND mask 52) n = bit (w' AND mask 52) n"
      using assms(2) by (simp only: mask_52)
    with 1 show ?thesis
      by (simp add: bit_and_iff bit_mask_iff)
  next
    case 2
    have "bit (drop_bit 52 w AND mask 11) (n - 52) = bit (drop_bit 52 w' AND mask 11) (n - 52)"
      using assms(3) by (simp only: mask_11)
    moreover have "n - 52 < 11" "n - 52 < 64" "52 + (n - 52) = n"
      using 2 by simp_all
    ultimately show ?thesis
      by (simp add: bit_and_iff bit_mask_iff bit_drop_bit_eq)
  next
    case 3
    with assms(1) show ?thesis by simp
  qed
qed

lemma decode_f64_fields:
  assumes "decode_f64 w = decode_f64 w'" and "decode_f64 w \<noteq> NaN"
  shows "bit w 63 = bit w' 63"
    and "unat (w AND 0xFFFFFFFFFFFFF) = unat (w' AND 0xFFFFFFFFFFFFF)"
    and "unat (drop_bit 52 w AND 0x7FF) = unat (drop_bit 52 w' AND 0x7FF)"
proof -
  obtain ex fr where b: "ex < 2048" "fr < 2 ^ 52"
    and f: "ex = unat (drop_bit 52 w AND 0x7FF)" "fr = unat (w AND 0xFFFFFFFFFFFFF)"
    and d: "decode_f64 w =
       (if ex = 2047 then (if fr = 0 then Infinite (bit w 63) else NaN)
        else if ex = 0 then Finite (bit w 63) fr (- 1074)
        else Finite (bit w 63) (2 ^ 52 + fr) (int ex - 1075))"
    using decode_f64_cases [of w] by blast
  obtain ex' fr' where b': "ex' < 2048" "fr' < 2 ^ 52"
    and f': "ex' = unat (drop_bit 52 w' AND 0x7FF)" "fr' = unat (w' AND 0xFFFFFFFFFFFFF)"
    and d': "decode_f64 w' =
       (if ex' = 2047 then (if fr' = 0 then Infinite (bit w' 63) else NaN)
        else if ex' = 0 then Finite (bit w' 63) fr' (- 1074)
        else Finite (bit w' 63) (2 ^ 52 + fr') (int ex' - 1075))"
    using decode_f64_cases [of w'] by blast
  have "bit w 63 = bit w' 63 \<and> fr = fr' \<and> ex = ex'"
    using assms b b' unfolding d d' by (auto split: if_splits)
  then show "bit w 63 = bit w' 63"
    and "unat (w AND 0xFFFFFFFFFFFFF) = unat (w' AND 0xFFFFFFFFFFFFF)"
    and "unat (drop_bit 52 w AND 0x7FF) = unat (drop_bit 52 w' AND 0x7FF)"
    by (simp_all add: f f')
qed

lemma decode_f64_inj:
  assumes "decode_f64 w = decode_f64 w'" and "decode_f64 w \<noteq> NaN"
  shows "w = w'"
proof (rule fields_determine)
  show "bit w 63 = bit w' 63"
    by (rule decode_f64_fields(1) [OF assms])
  show "w AND 0xFFFFFFFFFFFFF = w' AND 0xFFFFFFFFFFFFF"
    using decode_f64_fields(2) [OF assms] by (simp only: word_unat_eq_iff)
  show "drop_bit 52 w AND 0x7FF = drop_bit 52 w' AND 0x7FF"
    using decode_f64_fields(3) [OF assms] by (simp only: word_unat_eq_iff)
qed

subsection \<open>The shortest digits read back\<close>

lemma bin_scale_pos: "0 < bin_scale E p"
  by (simp add: bin_scale_def)

lemma dec_scale_pos: "0 < dec_scale E p"
  by (simp add: dec_scale_def)

lemma reads_back_exact:
  assumes "0 < m" and "0 < A" and "d * B = 4 * m * A"
  shows "reads_back m e A B d"
proof -
  have lo: "(4 * m - (if m = 2 ^ 52 \<and> - 1074 < e then 1 else 2)) * A < 4 * m * A"
    using assms(1,2) by (intro mult_strict_right_mono) auto
  have hi: "4 * m * A < (4 * m + 2) * A"
    using assms(2) by (intro mult_strict_right_mono) auto
  show ?thesis
    using lo hi by (simp add: reads_back_def Let_def assms(3))
qed

lemma dec_scale_dvd_bin_scale:
  assumes "p \<le> 0" and "- E \<le> - p"
  shows "dec_scale E p dvd bin_scale E p"
proof -
  have d: "dec_scale E p = 2 ^ nat (- E)"
    using assms(1) by (simp add: dec_scale_def)
  have "nat (- E) \<le> nat (- p)"
    using assms(2) by simp
  then have "(2::nat) ^ nat (- E) dvd 2 ^ nat (- p)"
    by (rule le_imp_power_dvd)
  also have "(2::nat) ^ nat (- p) dvd 10 ^ nat (- p)"
    by (rule dvd_power_same) simp
  also have "(10::nat) ^ nat (- p) dvd bin_scale E p"
    by (simp add: bin_scale_def)
  finally show ?thesis
    by (simp only: d)
qed

lemma reads_back_at_bound:
  assumes "0 < m" and "k + max (2 - e) 0 \<le> int n"
  shows "reads_back m e (bin_scale (e - 2) (k - int n)) (dec_scale (e - 2) (k - int n))
           ((4 * m * bin_scale (e - 2) (k - int n)) div dec_scale (e - 2) (k - int n))"
proof -
  let ?p = "k - int n"
  let ?A = "bin_scale (e - 2) ?p"
  let ?B = "dec_scale (e - 2) ?p"
  from assms(2) have "?p \<le> 0" and "- (e - 2) \<le> - ?p"
    by simp_all
  then have "?B dvd ?A"
    by (rule dec_scale_dvd_bin_scale)
  then have "?B dvd 4 * m * ?A"
    by (rule dvd_mult)
  then have "(4 * m * ?A) div ?B * ?B = 4 * m * ?A"
    by (rule dvd_div_mult_self)
  with assms(1) bin_scale_pos show ?thesis
    by (intro reads_back_exact)
qed

lemma shortest_from_reads_back:
  assumes "0 < m"
  shows "reads_back m e (bin_scale (e - 2) (k - int (snd (shortest_from m e k n))))
           (dec_scale (e - 2) (k - int (snd (shortest_from m e k n))))
           (fst (shortest_from m e k n))"
  using assms
proof (induction m e k n rule: shortest_from.induct)
  case (1 m e k n)
  let ?p = "k - int n"
  let ?A = "bin_scale (e - 2) ?p"
  let ?B = "dec_scale (e - 2) ?p"
  let ?dl = "(4 * m * ?A) div ?B"
  let ?il = "reads_back m e ?A ?B ?dl"
  let ?ih = "reads_back m e ?A ?B (?dl + 1)"
  show ?case
  proof (cases "?il \<or> ?ih")
    case True
    then show ?thesis
      by (subst (1 2 3) shortest_from.simps) (auto simp: Let_def)
  next
    case False
    then have nb: "\<not> k + max (2 - e) 0 \<le> int n"
      using reads_back_at_bound [OF "1.prems", of k e n] by auto
    have step: "shortest_from m e k n = shortest_from m e k (n + 1)"
      using False nb by (subst shortest_from.simps) (simp add: Let_def)
    have "reads_back m e (bin_scale (e - 2) (k - int (snd (shortest_from m e k (n + 1)))))
           (dec_scale (e - 2) (k - int (snd (shortest_from m e k (n + 1)))))
           (fst (shortest_from m e k (n + 1)))"
      using False nb "1.prems" by (intro "1.IH") (auto simp: Let_def)
    then show ?thesis
      by (simp only: step)
  qed
qed

subsection \<open>A field reads back as its coordinate\<close>

lemma reads_back_pos:
  assumes "0 < m" and "0 < A" and "reads_back m e A B d"
  shows "0 < d"
proof (rule ccontr)
  assume "\<not> 0 < d"
  then have d: "d = 0" by simp
  have "0 < (4 * m - (if m = 2 ^ 52 \<and> - 1074 < e then 1 else 2)) * A"
    using assms(1,2) by simp
  with assms(3) show False
    by (simp add: reads_back_def Let_def d split: if_splits)
qed

lemma same_decimal_strip:
  assumes "d' * 10 ^ j = d"
  shows "same_decimal d p d' (p + int j)"
proof -
  have "j + nat p + nat (- (p + int j)) = nat (p + int j) + nat (- p)"
    by linarith
  then have "(10::nat) ^ (j + nat p + nat (- (p + int j))) = 10 ^ (nat (p + int j) + nat (- p))"
    by (rule arg_cong)
  then have e: "(10::nat) ^ j * 10 ^ nat p * 10 ^ nat (- (p + int j))
      = 10 ^ nat (p + int j) * 10 ^ nat (- p)"
    by (simp only: power_add)
  have "d * 10 ^ nat p * 10 ^ nat (- (p + int j))
      = d' * (10 ^ j * 10 ^ nat p * 10 ^ nat (- (p + int j)))"
    by (simp add: assms [symmetric] ac_simps)
  also have "\<dots> = d' * (10 ^ nat (p + int j) * 10 ^ nat (- p))"
    by (simp only: e)
  also have "\<dots> = d' * 10 ^ nat (p + int j) * 10 ^ nat (- p)"
    by (simp add: ac_simps)
  finally show ?thesis
    by (simp only: same_decimal_def)
qed

lemma repr_digits_head:
  assumes "all_digits ds"
  shows "\<exists>c cs. repr_digits ds k = c # cs \<and> is_digit c"
proof -
  obtain a as where ds: "ds = a # as" and a: "is_digit a"
    using assms by (cases ds) (auto simp: all_digits_def)
  consider (z) "- 4 < k \<and> k \<le> 16" "k \<le> 0" | (p) "- 4 < k \<and> k \<le> 16" "0 < k"
    | (x) "\<not> (- 4 < k \<and> k \<le> 16)"
    by linarith
  then show ?thesis
  proof cases
    case z
    then show ?thesis
      by (simp add: repr_digits_def ustr_def is_digit_def)
  next
    case p
    then obtain k' where k': "nat k = Suc k'"
      by (cases "nat k") auto
    from p show ?thesis
      using a by (simp add: repr_digits_def ds k')
  next
    case x
    have "repr_digits ds k =
        take 1 ds @ (if 1 < length ds then ustr ''.'' @ drop 1 ds else []) @ ustr ''e'' @
        (if k - 1 < 0 then ustr ''-'' else ustr ''+'') @
        (if \<bar>k - 1\<bar> < 10 then ustr ''0'' else []) @ str_nat (nat \<bar>k - 1\<bar>)"
      by (simp only: repr_digits_def x if_False)
    then show ?thesis
      using a by (simp add: ds)
  qed
qed

lemma parse_unsigned_zero: "parse_unsigned (ustr ''0.0'') = Some (0, - 1)"
  by (simp add: parse_unsigned_def parse_mantissa_def all_digits_def is_digit_def
      digits_value_def ustr_def)

lemma in_interval_zero: "in_interval 0 e 0 p"
  by (simp add: in_interval_def)

lemma float_str_finite:
  assumes "decode_f64 v = Finite s m e"
  shows "\<exists>c cs D P. float_str v = (if s then ustr ''-'' else []) @ c # cs \<and> is_digit c \<and>
           parse_unsigned (c # cs) = Some (D, P) \<and> in_interval m e D P"
proof (cases "m = 0")
  case True
  have "float_str v = (if s then ustr ''-'' else []) @ ustr ''0.0''"
    by (simp add: float_str_def assms True)
  moreover have "ustr ''0.0'' = 48 # [46, 48]" and "is_digit 48"
    by (simp_all add: ustr_def is_digit_def)
  ultimately show ?thesis
    using parse_unsigned_zero in_interval_zero [of e "- 1"] True by metis
next
  case False
  then have m: "0 < m" by simp
  have e: "- 1074 \<le> e"
    using decode_f64_valid [OF assms] by (auto simp: valid_f64_def)
  define k where "k = dec_exp m e"
  define dn where "dn = shortest_from m e k 1"
  define d where "d = fst dn"
  define n where "n = snd dn"
  define ds0 where "ds0 = str_nat d"
  define ds where "ds = rstrip0 ds0"
  define j where "j = length ds0 - length ds"
  define k' where "k' = k - int n + int (length ds0)"
  have fs: "float_str v = (if s then ustr ''-'' else []) @ repr_digits ds k'"
    unfolding float_str_def assms fpclass.case Let_def
    by (simp only: False if_False k_def [symmetric] dn_def [symmetric] d_def [symmetric]
        n_def [symmetric] ds0_def [symmetric] ds_def [symmetric] k'_def [symmetric])
  have rb: "reads_back m e (bin_scale (e - 2) (k - int n)) (dec_scale (e - 2) (k - int n)) d"
    unfolding d_def n_def dn_def by (rule shortest_from_reads_back [OF m])
  then have ii: "in_interval m e d (k - int n)"
    by (simp only: reads_back_in_interval [OF e])
  have dpos: "0 < d"
    using m bin_scale_pos rb by (rule reads_back_pos)
  have ad: "all_digits ds"
    unfolding ds_def ds0_def using dpos by (rule all_digits_rstrip0_str_nat)
  have len: "length ds \<le> length ds0"
    unfolding ds_def by (rule rstrip0_length)
  have "digits_value ds * 10 ^ j = digits_value ds0"
    unfolding ds_def j_def by (rule rstrip0_value)
  then have "digits_value ds * 10 ^ j = d"
    by (simp add: ds0_def digits_value_str_nat)
  then have "same_decimal d (k - int n) (digits_value ds) (k - int n + int j)"
    by (rule same_decimal_strip)
  moreover have "k - int n + int j = k' - int (length ds)"
    using len by (simp add: j_def k'_def)
  ultimately have sd1: "same_decimal d (k - int n) (digits_value ds) (k' - int (length ds))"
    by simp
  obtain D P where pu: "parse_unsigned (repr_digits ds k') = Some (D, P)"
    and sd2: "same_decimal (digits_value ds) (k' - int (length ds)) D P"
    using parse_unsigned_repr_digits [OF ad, of k'] by blast
  obtain c cs where hd: "repr_digits ds k' = c # cs" and c: "is_digit c"
    using repr_digits_head [OF ad, of k'] by blast
  have "in_interval m e D P"
    using ii in_interval_same_decimal [OF sd1, of m e] in_interval_same_decimal [OF sd2, of m e]
    by simp
  then show ?thesis
    using fs pu hd c by metis
qed

lemma numeral_text_not_special:
  assumes "t = (if s then ustr ''-'' else []) @ c # cs" and "is_digit c"
  shows "t \<noteq> []" and "t \<noteq> ustr ''nan''" and "t \<noteq> ustr ''inf''" and "t \<noteq> ustr ''-inf''"
  using assms by (auto simp: ustr_def is_digit_def split: if_splits)

lemma parse_decimal_signed:
  assumes "is_digit c" and "parse_unsigned (c # cs) = Some (D, P)"
  shows "parse_decimal ((if s then ustr ''-'' else []) @ c # cs) = Some (s, D, P)"
  using assms by (auto simp: parse_decimal_def ustr_def is_digit_def)

text \<open>
  The text of a finite coordinate reads as a binary64 \<open>w\<close> exactly when \<open>w\<close> is finite
  with the same sign and the text lies in the rounding interval of \<open>w\<close>.
\<close>

lemma reads_as_float_str_finite:
  assumes "decode_f64 v = Finite s m e"
  shows "\<exists>D P. in_interval m e D P \<and>
           (\<forall>w. reads_as (float_str v) w =
              (case decode_f64 w of
                 Finite s' m' e' \<Rightarrow> s' = s \<and> in_interval m' e' D P
               | Infinite s' \<Rightarrow> False
               | NaN \<Rightarrow> False))"
proof -
  obtain c cs D P where t: "float_str v = (if s then ustr ''-'' else []) @ c # cs"
    and c: "is_digit c" and pu: "parse_unsigned (c # cs) = Some (D, P)"
    and ii: "in_interval m e D P"
    using float_str_finite [OF assms] by blast
  have pd: "parse_decimal (float_str v) = Some (s, D, P)"
    unfolding t using c pu by (rule parse_decimal_signed)
  note ns = numeral_text_not_special [OF t c]
  have "reads_as (float_str v) w =
      (case decode_f64 w of
         Finite s' m' e' \<Rightarrow> s' = s \<and> in_interval m' e' D P
       | Infinite s' \<Rightarrow> False
       | NaN \<Rightarrow> False)" for w
  proof (cases "decode_f64 w")
    case (Finite s' m' e')
    have "- 1074 \<le> e'"
      using decode_f64_valid [OF Finite] by (auto simp: valid_f64_def)
    then show ?thesis
      by (simp add: reads_as_def ns pd Finite reads_back_in_interval)
  next
    case (Infinite s')
    then show ?thesis
      by (simp add: reads_as_def ns pd)
  next
    case NaN
    then show ?thesis
      by (simp add: reads_as_def ns pd)
  qed
  with ii show ?thesis by blast
qed

lemma reads_as_csv_field: "reads_as (csv_field v) v"
proof (cases "decode_f64 v")
  case (Finite s m e)
  obtain D P where "in_interval m e D P"
    and "\<forall>w. reads_as (float_str v) w =
              (case decode_f64 w of
                 Finite s' m' e' \<Rightarrow> s' = s \<and> in_interval m' e' D P
               | Infinite s' \<Rightarrow> False
               | NaN \<Rightarrow> False)"
    using reads_as_float_str_finite [OF Finite] by blast
  then have "reads_as (float_str v) v"
    by (simp add: Finite)
  then show ?thesis
    by (simp add: csv_field_def isna_def Finite)
next
  case (Infinite s)
  then show ?thesis
    by (simp add: csv_field_def isna_def float_str_def reads_as_def ustr_def)
next
  case NaN
  then show ?thesis
    by (simp add: csv_field_def isna_def reads_as_def)
qed

lemma reads_as_csv_field_unique:
  assumes "reads_as (csv_field v) w"
  shows "same_value v w"
proof (cases "decode_f64 v")
  case (Finite s m e)
  obtain D P where ii: "in_interval m e D P"
    and r: "\<forall>w. reads_as (float_str v) w =
              (case decode_f64 w of
                 Finite s' m' e' \<Rightarrow> s' = s \<and> in_interval m' e' D P
               | Infinite s' \<Rightarrow> False
               | NaN \<Rightarrow> False)"
    using reads_as_float_str_finite [OF Finite] by blast
  from assms have "reads_as (float_str v) w"
    by (simp add: csv_field_def isna_def Finite)
  with r obtain m' e' where w: "decode_f64 w = Finite s m' e'" and ii': "in_interval m' e' D P"
    by (auto split: fpclass.splits)
  have "m = m' \<and> e = e'"
    using decode_f64_valid [OF Finite] decode_f64_valid [OF w] ii ii' by (rule in_interval_unique)
  with Finite w have "decode_f64 v = decode_f64 w"
    by simp
  then have "v = w"
    by (rule decode_f64_inj) (simp add: Finite)
  then show ?thesis
    by (simp add: same_value_def)
next
  case (Infinite s)
  with assms have "decode_f64 w = Infinite s"
    by (simp add: csv_field_def isna_def float_str_def reads_as_def ustr_def split: if_splits)
  with Infinite have "decode_f64 v = decode_f64 w"
    by simp
  then have "v = w"
    by (rule decode_f64_inj) (simp add: Infinite)
  then show ?thesis
    by (simp add: same_value_def)
next
  case NaN
  with assms show ?thesis
    by (simp add: csv_field_def isna_def reads_as_def same_value_def)
qed

subsection \<open>The records of the CSV text\<close>

lemma repr_digits_chars:
  assumes "list_all is_digit ds" and "c \<in> set (repr_digits ds k)"
  shows "is_digit c \<or> c = 46 \<or> c = 101 \<or> c = 45 \<or> c = 43"
proof -
  have d: "x \<in> set ds \<Longrightarrow> is_digit x" for x
    using assms(1) by (simp add: list_all_iff)
  have n: "x \<in> set (str_nat j) \<Longrightarrow> is_digit x" for x j
    using str_nat_digits [of j] by (simp add: list_all_iff)
  have z: "is_digit 48"
    by (simp add: is_digit_def)
  show ?thesis
    using assms(2) d n z
    by (auto simp: repr_digits_def ustr_def split: if_splits dest!: in_set_takeD in_set_dropD)
qed

lemma float_str_chars:
  assumes "c \<in> set (float_str v)"
  shows "is_digit c \<or> c \<in> {46, 101, 45, 43, 110, 97, 105, 102}"
proof (cases "decode_f64 v")
  case (Finite s m e)
  show ?thesis
  proof (cases "m = 0")
    case True
    with assms Finite show ?thesis
      by (auto simp: float_str_def ustr_def is_digit_def split: if_splits)
  next
    case False
    define ds where "ds = rstrip0 (str_nat (fst (shortest_from m e (dec_exp m e) 1)))"
    have ds: "list_all is_digit ds"
      unfolding ds_def by (intro rstrip0_digits str_nat_digits)
    obtain k' where "float_str v = (if s then ustr ''-'' else []) @ repr_digits ds k'"
      by (simp add: float_str_def Finite False Let_def ds_def)
    with assms have "c = 45 \<or> c \<in> set (repr_digits ds k')"
      by (auto simp: ustr_def split: if_splits)
    then show ?thesis
      using repr_digits_chars [OF ds, of c k'] by auto
  qed
next
  case (Infinite s)
  with assms show ?thesis
    by (auto simp: float_str_def ustr_def split: if_splits)
next
  case NaN
  with assms show ?thesis
    by (auto simp: float_str_def ustr_def)
qed

lemma csv_field_no_sep: "44 \<notin> set (csv_field v)" "10 \<notin> set (csv_field v)"
  using float_str_chars [of 44 v] float_str_chars [of 10 v]
  by (auto simp: csv_field_def is_digit_def)

lemma join_no_char:
  "c \<notin> set sep \<Longrightarrow> \<forall>p \<in> set parts. c \<notin> set p \<Longrightarrow> c \<notin> set (join sep parts)"
  by (induction sep parts rule: join.induct) simp_all

lemma split_on_terminated:
  "\<forall>p \<in> set ps. c \<notin> set p \<Longrightarrow> split_on c (concat (map (\<lambda>p. p @ [c]) ps)) = ps @ [[]]"
  by (induction ps) (simp_all add: split_on_append)

lemma csv_line_fields:
  "split_on 44 (join (ustr '','') (map csv_field [a, b, c])) = [csv_field a, csv_field b, csv_field c]"
  using split_on_join [of "map csv_field [a, b, c]" 44] csv_field_no_sep(1)
  by (simp add: ustr_def)

lemma csv_line_no_newline: "10 \<notin> set (join (ustr '','') (map csv_field row))"
  by (rule join_no_char) (simp_all add: ustr_def csv_field_no_sep(2))

lemma csv_records_to_csv:
  assumes "DataFrame x y z = Inr df"
  shows "csv_records (to_csv df) =
     [ustr ''X'', ustr ''Y'', ustr ''Z''] #
     map (\<lambda>(a, b, c). [csv_field a, csv_field b, csv_field c]) (zip x (zip y z))"
proof -
  define rows where "rows = map (\<lambda>(a, b, c). [a, b, c]) (zip x (zip y z))"
  define lines where "lines = map (\<lambda>row. join (ustr '','') (map csv_field row)) rows"
  define hdr where "hdr = join (ustr '','') [ustr ''X'', ustr ''Y'', ustr ''Z'']"
  have df: "df = \<lparr>df_columns = [ustr ''X'', ustr ''Y'', ustr ''Z''], df_rows = rows\<rparr>"
    using assms by (auto simp: DataFrame_def rows_def split: if_splits)
  have tx: "to_csv df = concat (map (\<lambda>p. p @ [10]) (hdr # lines))"
    by (simp add: to_csv_def df hdr_def lines_def newline_def comp_def)
  have "\<forall>p \<in> set (hdr # lines). 10 \<notin> set p"
    using csv_line_no_newline by (auto simp: hdr_def lines_def ustr_def)
  then have "split_on 10 (to_csv df) = (hdr # lines) @ [[]]"
    unfolding tx by (rule split_on_terminated)
  then have rec: "csv_records (to_csv df) = map (split_on 44) (hdr # lines)"
    by (simp add: csv_records_def)
  have h: "split_on 44 hdr = [ustr ''X'', ustr ''Y'', ustr ''Z'']"
    by (simp add: hdr_def ustr_def)
  have l: "map (split_on 44) lines =
      map (\<lambda>(a, b, c). [csv_field a, csv_field b, csv_field c]) (zip x (zip y z))"
    using csv_line_fields by (simp add: lines_def rows_def comp_def split_def)
  show ?thesis
    by (simp add: rec h l)
qed

subsection \<open>The round trip\<close>

lemma row_reads_as_fields:
  "row_reads_as [csv_field a, csv_field b, csv_field c] r =
     (case r of (a', b', c') \<Rightarrow>
        reads_as (csv_field a) a' \<and> reads_as (csv_field b) b' \<and> reads_as (csv_field c) c')"
  by (simp add: row_reads_as_def split: prod.splits)

lemma csv_reads_as_to_csv:
  assumes "DataFrame x y z = Inr df"
  shows "csv_reads_as (to_csv df) x' y' z' =
     (length x' = length y' \<and> length y' = length z' \<and>
      list_all2 (\<lambda>(a, b, c) (a', b', c').
          reads_as (csv_field a) a' \<and> reads_as (csv_field b) b' \<and> reads_as (csv_field c) c')
        (zip x (zip y z)) (zip x' (zip y' z')))"
  by (simp add: csv_reads_as_def csv_records_to_csv [OF assms] list_all2_map1
      row_reads_as_fields split_def)

lemma DataFrame_lengths:
  assumes "DataFrame x y z = Inr df"
  shows "length x = length y" and "length y = length z"
  using assms by (auto simp: DataFrame_def split: if_splits)

lemma to_csv_ascii:
  assumes "DataFrame x y z = Inr df"
  shows "list_all (\<lambda>c. c < 128) (to_csv df)"
proof -
  have f: "list_all (\<lambda>c. c < 128) (csv_field v)" for v
    unfolding list_all_iff
  proof
    fix c assume "c \<in> set (csv_field v)"
    then have "c \<in> set (float_str v)"
      by (simp add: csv_field_def split: if_splits)
    then show "c < 128"
      using float_str_chars [of c v] by (auto simp: is_digit_def)
  qed
  have row: "list_all (\<lambda>c. c < 128) (join (ustr '','') (map csv_field row))" for row
    by (rule join_ascii) (simp_all add: ustr_def f)
  have df: "df_columns df = [ustr ''X'', ustr ''Y'', ustr ''Z'']"
    using assms by (auto simp: DataFrame_def split: if_splits)
  show ?thesis
    using row by (simp add: to_csv_def df newline_def ustr_def list_all_iff)
qed

lemma same_values_from_rows:
  assumes "length x = length y" and "length y = length z"
    and "length x' = length y'" and "length y' = length z'"
    and "list_all2 (\<lambda>(a, b, c) (a', b', c').
          same_value a a' \<and> same_value b b' \<and> same_value c c')
        (zip x (zip y z)) (zip x' (zip y' z'))"
  shows "list_all2 same_value x x' \<and> list_all2 same_value y y' \<and> list_all2 same_value z z'"
proof -
  have len: "length x = length x'"
    using list_all2_lengthD [OF assms(5)] assms(1-4) by simp
  have nth: "same_value (x ! i) (x' ! i) \<and> same_value (y ! i) (y' ! i) \<and> same_value (z ! i) (z' ! i)"
    if "i < length x" for i
  proof -
    have "i < length (zip x (zip y z))"
      using that assms(1,2) by simp
    then have "(\<lambda>(a, b, c) (a', b', c').
          same_value a a' \<and> same_value b b' \<and> same_value c c')
        (zip x (zip y z) ! i) (zip x' (zip y' z') ! i)"
      using assms(5) by (simp add: list_all2_conv_all_nth)
    then show ?thesis
      using that len assms(1-4) by simp
  qed
  show ?thesis
    using len assms(1-4) nth by (simp add: list_all2_conv_all_nth)
qed

text \<open>
  Claim C9: a point cloud exported to CSV (the header row \<open>X,Y,Z\<close> and one row per point,
  each value in its shortest text) reads back as itself, and whatever it reads back as
  has the same values in the same order: coordinate by coordinate the same binary64, a
  missing value (NaN) reading back as a missing value. The text is ASCII, so the exported
  bytes are its code points.
\<close>

theorem csv_round_trip:
  assumes "DataFrame x y z = Inr df"
  shows "csv_reads_as (to_csv df) x y z
       \<and> (csv_reads_as (to_csv df) x' y' z' \<longrightarrow>
            list_all2 same_value x x' \<and> list_all2 same_value y y' \<and> list_all2 same_value z z')
       \<and> encode_utf8 (to_csv df) = Inr (map of_nat (to_csv df))"
proof -
  note len = DataFrame_lengths [OF assms]
  have a: "csv_reads_as (to_csv df) x y z"
    using len by (simp add: csv_reads_as_to_csv [OF assms] list_all2_same reads_as_csv_field split_def)
  have b: "list_all2 same_value x x' \<and> list_all2 same_value y y' \<and> list_all2 same_value z z'"
    if r: "csv_reads_as (to_csv df) x' y' z'"
  proof -
    from r have len': "length x' = length y'" "length y' = length z'"
      and rows: "list_all2 (\<lambda>(a, b, c) (a', b', c').
          reads_as (csv_field a) a' \<and> reads_as (csv_field b) b' \<and> reads_as (csv_field c) c')
        (zip x (zip y z)) (zip x' (zip y' z'))"
      by (simp_all add: csv_reads_as_to_csv [OF assms])
    have "list_all2 (\<lambda>(a, b, c) (a', b', c').
          same_value a a' \<and> same_value b b' \<and> same_value c c')
        (zip x (zip y z)) (zip x' (zip y' z'))"
      using rows by (rule list_all2_mono) (auto intro: reads_as_csv_field_unique)
    with len len' show ?thesis
      by (intro same_values_from_rows)
  qed
  have c: "encode_utf8 (to_csv df) = Inr (map of_nat (to_csv df))"
    using to_csv_ascii [OF assms] by (rule encode_utf8_ascii)
  show ?thesis
    using a b c by blast
qed

theorem csv_round_trip_witness:
  "csv_reads_as (ustr ''X,Y,Z'' @ newline @ ustr ''12.5,7.25,0.0'' @ newline)
     [0x4029000000000000] [0x401D000000000000] [0]"
proof -
  obtain df where df: "DataFrame [0x4029000000000000] [0x401D000000000000] [0] = Inr df"
    by (simp add: DataFrame_def)
  have "csv_reads_as (to_csv df) [0x4029000000000000] [0x401D000000000000] [0]"
    using csv_round_trip [OF df] by simp
  then show ?thesis
    by (simp only: to_csv_single_point [OF df])
qed

end
